theory Spec2Isabelle
  imports Complex_Main "HOL-Library.Multiset"
begin

section \<open>JavaScript numbers\<close>

text \<open>
  The entries of a \<^verbatim>\<open>Float64Array\<close> are IEEE-754 doubles. A double is modelled as a
  finite real, one of the two infinities, or NaN. Arithmetic on finite values is taken
  exact (no rounding, no negative zero), except that \<^verbatim>\<open>Math.exp\<close> overflows to
  infinity and underflows to 0 outside the range in which its result is a double; the
  infinities and NaN propagate as IEEE-754 prescribes. Every theorem below is a statement
  about this reading of the arithmetic.
\<close>

datatype jsnum = Num real | PosInf | NegInf | NaN

instantiation jsnum :: "{comm_monoid_add, uminus, minus, times}"
begin

definition zero_jsnum :: jsnum where
  "zero_jsnum = Num 0"

fun plus_jsnum :: "jsnum \<Rightarrow> jsnum \<Rightarrow> jsnum" where
  "plus_jsnum (Num a) (Num b) = Num (a + b)"
| "plus_jsnum NaN _ = NaN"
| "plus_jsnum _ NaN = NaN"
| "plus_jsnum PosInf NegInf = NaN"
| "plus_jsnum NegInf PosInf = NaN"
| "plus_jsnum PosInf _ = PosInf"
| "plus_jsnum _ PosInf = PosInf"
| "plus_jsnum NegInf _ = NegInf"
| "plus_jsnum _ NegInf = NegInf"

fun uminus_jsnum :: "jsnum \<Rightarrow> jsnum" where
  "uminus_jsnum (Num a) = Num (- a)"
| "uminus_jsnum PosInf = NegInf"
| "uminus_jsnum NegInf = PosInf"
| "uminus_jsnum NaN = NaN"

definition minus_jsnum :: "jsnum \<Rightarrow> jsnum \<Rightarrow> jsnum" where
  "minus_jsnum a b = a + (- b)"

fun times_jsnum :: "jsnum \<Rightarrow> jsnum \<Rightarrow> jsnum" where
  "times_jsnum (Num a) (Num b) = Num (a * b)"
| "times_jsnum NaN _ = NaN"
| "times_jsnum _ NaN = NaN"
| "times_jsnum (Num a) PosInf = (if 0 < a then PosInf else if a < 0 then NegInf else NaN)"
| "times_jsnum (Num a) NegInf = (if 0 < a then NegInf else if a < 0 then PosInf else NaN)"
| "times_jsnum PosInf (Num b) = (if 0 < b then PosInf else if b < 0 then NegInf else NaN)"
| "times_jsnum NegInf (Num b) = (if 0 < b then NegInf else if b < 0 then PosInf else NaN)"
| "times_jsnum PosInf PosInf = PosInf"
| "times_jsnum PosInf NegInf = NegInf"
| "times_jsnum NegInf PosInf = NegInf"
| "times_jsnum NegInf NegInf = PosInf"

instance
proof
  fix x y z :: jsnum
  show "x + y = y + x"
    by (cases x; cases y) simp_all
  show "0 + x = x"
    by (cases x) (simp_all add: zero_jsnum_def)
  show "x + y + z = x + (y + z)"
    by (cases x; cases y; cases z) simp_all
qed

end

text \<open>\<^verbatim>\<open>x / y\<close>. A finite zero divisor is read as \<^verbatim>\<open>+0\<close>.\<close>

fun js_div :: "jsnum \<Rightarrow> jsnum \<Rightarrow> jsnum" where
  "js_div NaN _ = NaN"
| "js_div _ NaN = NaN"
| "js_div (Num a) (Num b) =
     (if b \<noteq> 0 then Num (a / b)
      else if 0 < a then PosInf else if a < 0 then NegInf else NaN)"
| "js_div (Num a) PosInf = Num 0"
| "js_div (Num a) NegInf = Num 0"
| "js_div PosInf (Num b) = (if 0 \<le> b then PosInf else NegInf)"
| "js_div NegInf (Num b) = (if 0 \<le> b then NegInf else PosInf)"
| "js_div PosInf PosInf = NaN"
| "js_div PosInf NegInf = NaN"
| "js_div NegInf PosInf = NaN"
| "js_div NegInf NegInf = NaN"

text \<open>\<^verbatim>\<open>x > y\<close>: false as soon as one side is NaN.\<close>

fun js_gt :: "jsnum \<Rightarrow> jsnum \<Rightarrow> bool" where
  "js_gt (Num a) (Num b) = (b < a)"
| "js_gt NaN _ = False"
| "js_gt _ NaN = False"
| "js_gt PosInf PosInf = False"
| "js_gt PosInf _ = True"
| "js_gt _ PosInf = False"
| "js_gt NegInf _ = False"
| "js_gt _ NegInf = True"

text \<open>\<^verbatim>\<open>Math.max\<close>, \<^verbatim>\<open>Math.min\<close>: NaN as soon as one argument is NaN.\<close>

fun js_max :: "jsnum \<Rightarrow> jsnum \<Rightarrow> jsnum" where
  "js_max NaN _ = NaN"
| "js_max _ NaN = NaN"
| "js_max a b = (if js_gt a b then a else b)"

fun js_min :: "jsnum \<Rightarrow> jsnum \<Rightarrow> jsnum" where
  "js_min NaN _ = NaN"
| "js_min _ NaN = NaN"
| "js_min a b = (if js_gt a b then b else a)"

text \<open>
  \<^verbatim>\<open>Math.exp\<close>, as the algorithm that V8 uses computes it: for an argument
  above 709.782712893383973096 the result overflows to \<^verbatim>\<open>Infinity\<close>, for an
  argument below -745.133219101941108420 it underflows to 0, and between the two
  thresholds it is read as the exponential, without rounding. \<open>math_exp\<close> is the result
  for an argument that does not overflow.
\<close>

definition math_exp :: "real \<Rightarrow> real" where
  "math_exp a = (if a < - (745133219101941108420 / 10 ^ 18) then 0 else exp a)"

fun js_exp :: "jsnum \<Rightarrow> jsnum" where
  "js_exp (Num a) = (if 709782712893383973096 / 10 ^ 18 < a then PosInf else Num (math_exp a))"
| "js_exp PosInf = PosInf"
| "js_exp NegInf = Num 0"
| "js_exp NaN = NaN"

fun js_log :: "jsnum \<Rightarrow> jsnum" where
  "js_log (Num a) = (if 0 < a then Num (ln a) else if a = 0 then NegInf else NaN)"
| "js_log PosInf = PosInf"
| "js_log NegInf = NaN"
| "js_log NaN = NaN"

fun js_tanh :: "jsnum \<Rightarrow> jsnum" where
  "js_tanh (Num a) = Num (tanh a)"
| "js_tanh PosInf = Num 1"
| "js_tanh NegInf = Num (- 1)"
| "js_tanh NaN = NaN"

fun js_sqrt :: "jsnum \<Rightarrow> jsnum" where
  "js_sqrt (Num a) = (if 0 \<le> a then Num (sqrt a) else NaN)"
| "js_sqrt PosInf = PosInf"
| "js_sqrt NegInf = NaN"
| "js_sqrt NaN = NaN"

section \<open>Typed arrays\<close>

text \<open>
  A \<^verbatim>\<open>Float64Array\<close> is a list of numbers of fixed length. Reading past the end
  gives \<^verbatim>\<open>undefined\<close>, which every use in this program turns into NaN (arithmetic) or
  into a false comparison, exactly as NaN does; a write past the end is dropped.
\<close>

definition f64_get :: "jsnum list \<Rightarrow> nat \<Rightarrow> jsnum" where
  "f64_get d i = (if i < length d then d ! i else NaN)"

definition f64_set :: "jsnum list \<Rightarrow> nat \<Rightarrow> jsnum \<Rightarrow> jsnum list" where
  "f64_set d i v = (if i < length d then d[i := v] else d)"

section \<open>Matrix\<close>

text \<open>
  \<^verbatim>\<open>class Matrix\<close>: \<^verbatim>\<open>rows\<close>, \<^verbatim>\<open>cols\<close> and the flat row-major buffer
  \<^verbatim>\<open>data\<close>. The dimensions are natural numbers.
\<close>

record matrix =
  rows :: nat
  cols :: nat
  data :: "jsnum list"

text \<open>
  The third constructor argument: absent, a \<^verbatim>\<open>Float64Array\<close> (taken as the buffer,
  whatever its length), or a plain array, whose elements are copied one by one into a
  zeroed buffer of \<^verbatim>\<open>rows * cols\<close> entries.
\<close>

datatype ctor_data = NoData | F64 "jsnum list" | Arr "jsnum list"

fun Matrix :: "nat \<Rightarrow> nat \<Rightarrow> ctor_data \<Rightarrow> matrix" where
  "Matrix r c NoData = \<lparr>rows = r, cols = c, data = replicate (r * c) 0\<rparr>"
| "Matrix r c (F64 d) = \<lparr>rows = r, cols = c, data = d\<rparr>"
| "Matrix r c (Arr a) =
     \<lparr>rows = r, cols = c,
      data = fold (\<lambda>i d. f64_set d i (a ! i)) [0..<length a] (replicate (r * c) 0)\<rparr>"

definition zeros :: "nat \<Rightarrow> nat \<Rightarrow> matrix" where
  "zeros r c = Matrix r c NoData"

definition fromArray :: "jsnum list \<Rightarrow> matrix" where
  "fromArray arr = Matrix (length arr) 1 (Arr arr)"

definition get :: "matrix \<Rightarrow> nat \<Rightarrow> nat \<Rightarrow> jsnum" where
  "get m i j = f64_get (data m) (i * cols m + j)"

definition add :: "matrix \<Rightarrow> matrix \<Rightarrow> matrix" where
  "add this other =
     (let out = Matrix (rows this) (cols this) NoData
      in out\<lparr>data := fold (\<lambda>i d. f64_set d i (f64_get (data this) i + f64_get (data other) i))
                         [0..<length (data this)] (data out)\<rparr>)"

definition sub :: "matrix \<Rightarrow> matrix \<Rightarrow> matrix" where
  "sub this other =
     (let out = Matrix (rows this) (cols this) NoData
      in out\<lparr>data := fold (\<lambda>i d. f64_set d i (f64_get (data this) i - f64_get (data other) i))
                         [0..<length (data this)] (data out)\<rparr>)"

text \<open>The innermost loop of \<^verbatim>\<open>mul\<close>: \<^verbatim>\<open>sum\<close> starts at 0 and runs over \<^verbatim>\<open>k\<close>.\<close>

definition mul_entry :: "matrix \<Rightarrow> matrix \<Rightarrow> nat \<Rightarrow> nat \<Rightarrow> jsnum" where
  "mul_entry this other i j =
     fold (\<lambda>k s. s + f64_get (data this) (i * cols this + k)
                     * f64_get (data other) (k * cols other + j))
          [0..<cols this] 0"

definition mul :: "matrix \<Rightarrow> matrix \<Rightarrow> matrix" where
  "mul this other =
     (let out = Matrix (rows this) (cols other) NoData
      in out\<lparr>data :=
           fold (\<lambda>i d. fold (\<lambda>j d. f64_set d (i * cols other + j) (mul_entry this other i j))
                             [0..<cols other] d)
                [0..<rows this] (data out)\<rparr>)"

definition hadamard :: "matrix \<Rightarrow> matrix \<Rightarrow> matrix" where
  "hadamard this other =
     (let out = Matrix (rows this) (cols this) NoData
      in out\<lparr>data := fold (\<lambda>i d. f64_set d i (f64_get (data this) i * f64_get (data other) i))
                         [0..<length (data this)] (data out)\<rparr>)"

definition scale :: "matrix \<Rightarrow> jsnum \<Rightarrow> matrix" where
  "scale this s =
     (let out = Matrix (rows this) (cols this) NoData
      in out\<lparr>data := fold (\<lambda>i d. f64_set d i (f64_get (data this) i * s))
                         [0..<length (data this)] (data out)\<rparr>)"

definition transpose_m :: "matrix \<Rightarrow> matrix" where
  "transpose_m this =
     (let out = Matrix (cols this) (rows this) NoData
      in out\<lparr>data :=
           fold (\<lambda>i d. fold (\<lambda>j d. f64_set d (j * rows this + i)
                                          (f64_get (data this) (i * cols this + j)))
                             [0..<cols this] d)
                [0..<rows this] (data out)\<rparr>)"

definition map_m :: "matrix \<Rightarrow> (jsnum \<Rightarrow> nat \<Rightarrow> jsnum) \<Rightarrow> matrix" where
  "map_m this fn =
     (let out = Matrix (rows this) (cols this) NoData
      in out\<lparr>data := fold (\<lambda>i d. f64_set d i (fn (f64_get (data this) i) i))
                         [0..<length (data this)] (data out)\<rparr>)"

definition addVec :: "matrix \<Rightarrow> matrix \<Rightarrow> matrix" where
  "addVec this vec =
     (let out = Matrix (rows this) (cols this) NoData
      in out\<lparr>data :=
           fold (\<lambda>i d. fold (\<lambda>j d. f64_set d (i * cols this + j)
                                          (f64_get (data this) (i * cols this + j)
                                           + f64_get (data vec) i))
                             [0..<cols this] d)
                [0..<rows this] (data out)\<rparr>)"

definition clone :: "matrix \<Rightarrow> matrix" where
  "clone this = Matrix (rows this) (cols this) (F64 (data this))"

text \<open>The class invariant of the specification: the buffer has \<^verbatim>\<open>rows * cols\<close> entries.\<close>

definition wf_matrix :: "matrix \<Rightarrow> bool" where
  "wf_matrix m \<longleftrightarrow> length (data m) = rows m * cols m"

section \<open>Activations, softmax and loss\<close>

text \<open>
  The registry \<^verbatim>\<open>activations\<close>: a name is looked up and gives the pair \<^verbatim>\<open>fn\<close>,
  \<^verbatim>\<open>dfn\<close>. Any name other than the three registered ones gives \<^verbatim>\<open>undefined\<close>
  (names inherited from \<^verbatim>\<open>Object.prototype\<close> are not modelled).
\<close>

record activation =
  fn :: "jsnum \<Rightarrow> jsnum"
  dfn :: "jsnum \<Rightarrow> jsnum"

definition relu :: activation where
  "relu = \<lparr>fn = (\<lambda>x. js_max 0 x), dfn = (\<lambda>x. if js_gt x 0 then Num 1 else 0)\<rparr>"

definition sigmoid_s :: "jsnum \<Rightarrow> jsnum" where
  "sigmoid_s x =
     js_div (Num 1) (Num 1 + js_exp (- js_min (js_max x (Num (- 500))) (Num 500)))"

definition sigmoid :: activation where
  "sigmoid = \<lparr>fn = sigmoid_s, dfn = (\<lambda>x. let s = sigmoid_s x in s * (Num 1 - s))\<rparr>"

definition tanh_a :: activation where
  "tanh_a = \<lparr>fn = js_tanh, dfn = (\<lambda>x. Num 1 - js_tanh x * js_tanh x)\<rparr>"

definition activations :: "string \<Rightarrow> activation option" where
  "activations name =
     (if name = ''relu'' then Some relu
      else if name = ''sigmoid'' then Some sigmoid
      else if name = ''tanh'' then Some tanh_a
      else None)"

text \<open>The three loops of \<^verbatim>\<open>softmax\<close>: the maximum, the exponentials with their running
  sum, and the division of every entry by the sum.\<close>

definition softmax_max :: "matrix \<Rightarrow> jsnum" where
  "softmax_max vec =
     fold (\<lambda>i maxVal. if js_gt (f64_get (data vec) i) maxVal then f64_get (data vec) i
                        else maxVal)
          [0..<rows vec] NegInf"

definition softmax_exp :: "matrix \<Rightarrow> jsnum \<Rightarrow> jsnum list \<Rightarrow> jsnum list \<times> jsnum" where
  "softmax_exp vec maxVal d0 =
     fold (\<lambda>i (d, s). let d' = f64_set d i (js_exp (f64_get (data vec) i - maxVal))
                        in (d', s + f64_get d' i))
          [0..<rows vec] (d0, 0)"

definition softmax :: "matrix \<Rightarrow> matrix" where
  "softmax vec =
     (let out = Matrix (rows vec) 1 NoData;
          maxVal = softmax_max vec;
          (d, s) = softmax_exp vec maxVal (data out)
      in out\<lparr>data := fold (\<lambda>i d. f64_set d i (js_div (f64_get d i) s)) [0..<rows vec] d\<rparr>)"

definition crossEntropyLoss :: "matrix \<Rightarrow> matrix \<Rightarrow> jsnum" where
  "crossEntropyLoss predicted target =
     fold (\<lambda>i loss.
             if js_gt (f64_get (data target) i) 0
             then loss - f64_get (data target) i
                           * js_log (js_max (f64_get (data predicted) i) (Num (1 / 10 ^ 15)))
             else loss)
          [0..<rows target] 0"

section \<open>Random numbers and Xavier initialisation\<close>

text \<open>
  \<^verbatim>\<open>Math.random()\<close> returns a number in \<open>[0, 1)\<close>. The source of randomness is a
  sequence \<open>rnd\<close> of reals and a position in it; the draw at position \<open>k\<close> is the
  fractional part of \<open>rnd k\<close>, so every sequence of draws in \<open>[0, 1)\<close> is represented
  and no other.
\<close>

type_synonym rng = "nat \<Rightarrow> real"

definition random :: "rng \<Rightarrow> nat \<Rightarrow> real" where
  "random rnd k = frac (rnd k)"

definition xavierInit :: "nat \<Rightarrow> nat \<Rightarrow> rng \<Rightarrow> nat \<Rightarrow> matrix \<times> nat" where
  "xavierInit r c rnd k =
     (let limit = js_sqrt (js_div (Num 6) (Num (real (r + c))));
          m = Matrix r c NoData;
          (d, k') = fold (\<lambda>i (d, k). (f64_set d i ((Num (random rnd k) * Num 2 - Num 1) * limit),
                                        Suc k))
                         [0..<length (data m)] (data m, k)
      in (m\<lparr>data := d\<rparr>, k'))"

section \<open>Network\<close>

datatype error = TypeError

record network =
  layerSizes :: "nat list"
  hiddenActivation :: string
  weights :: "matrix list"
  biases :: "matrix list"

text \<open>The constructor; an absent second argument is the default \<^verbatim>\<open>'relu'\<close>.\<close>

definition Network :: "nat list \<Rightarrow> string option \<Rightarrow> rng \<Rightarrow> nat \<Rightarrow> network \<times> nat" where
  "Network ls act rnd k =
     (let (ws, bs, k') =
            fold (\<lambda>i (ws, bs, k).
                    let (w, k') = xavierInit (ls ! (i + 1)) (ls ! i) rnd k
                    in (ws @ [w], bs @ [zeros (ls ! (i + 1)) 1], k'))
                 [0..<length ls - 1] ([], [], k)
      in (\<lparr>layerSizes = ls,
           hiddenActivation = (case act of None \<Rightarrow> ''relu'' | Some a \<Rightarrow> a),
           weights = ws, biases = bs\<rparr>, k'))"

text \<open>
  \<^verbatim>\<open>z.add(this.biases[i])\<close>: the argument is \<^verbatim>\<open>undefined\<close> when the network has
  fewer biases than weights. Then reading \<^verbatim>\<open>other.data\<close> in the loop body is a
  TypeError, unless the loop body never runs.
\<close>

definition add_arg :: "matrix \<Rightarrow> matrix option \<Rightarrow> error + matrix" where
  "add_arg this other =
     (case other of
        Some b \<Rightarrow> Inr (add this b)
      | None \<Rightarrow> if data this = [] then Inr (Matrix (rows this) (cols this) NoData)
                else Inl TypeError)"

definition nth_opt :: "'a list \<Rightarrow> nat \<Rightarrow> 'a option" where
  "nth_opt xs i = (if i < length xs then Some (xs ! i) else None)"

text \<open>One turn of the loop of \<^verbatim>\<open>forward\<close>, on the state \<^verbatim>\<open>zs\<close>, \<^verbatim>\<open>as\<close>, \<^verbatim>\<open>a\<close>.\<close>

definition forward_step ::
  "network \<Rightarrow> nat \<Rightarrow> matrix list \<times> matrix list \<times> matrix
     \<Rightarrow> error + matrix list \<times> matrix list \<times> matrix" where
  "forward_step net i st =
     (case st of (zs, as, a) \<Rightarrow>
        (case add_arg (mul (weights net ! i) a) (nth_opt (biases net) i) of
           Inl e \<Rightarrow> Inl e
         | Inr z \<Rightarrow>
             if i < length (weights net) - 1
             then (case activations (hiddenActivation net) of
                     None \<Rightarrow> Inl TypeError
                   | Some act \<Rightarrow>
                       let a' = map_m z (\<lambda>x i. fn act x)
                       in Inr (zs @ [z], as @ [a'], a'))
             else (let a' = softmax z in Inr (zs @ [z], as @ [a'], a'))))"

definition forward :: "network \<Rightarrow> matrix \<Rightarrow> error + matrix list \<times> matrix list" where
  "forward net input =
     (case fold (\<lambda>i st. case st of Inl e \<Rightarrow> Inl e | Inr s \<Rightarrow> forward_step net i s)
                [0..<length (weights net)] (Inr ([], [input], input)) of
        Inl e \<Rightarrow> Inl e
      | Inr (zs, as, a) \<Rightarrow> Inr (zs, as))"

definition predict :: "network \<Rightarrow> matrix \<Rightarrow> error + matrix" where
  "predict net input =
     (case forward net input of
        Inl e \<Rightarrow> Inl e
      | Inr (zs, as) \<Rightarrow> Inr (as ! (length as - 1)))"

text \<open>
  One turn of the loop of \<^verbatim>\<open>backward\<close>, for \<^verbatim>\<open>i\<close> from \<^verbatim>\<open>L - 1\<close> down to 0. The
  arrays \<^verbatim>\<open>dw\<close> and \<^verbatim>\<open>db\<close> are filled from their last index down, so the entry for
  \<^verbatim>\<open>i\<close> is put in front of the entries for \<^verbatim>\<open>i + 1\<close>, ..., \<^verbatim>\<open>L - 1\<close>.
\<close>

definition backward_step ::
  "network \<Rightarrow> matrix list \<Rightarrow> matrix list \<Rightarrow> nat \<Rightarrow> matrix list \<times> matrix list \<times> matrix
     \<Rightarrow> error + matrix list \<times> matrix list \<times> matrix" where
  "backward_step net zs as i st =
     (case st of (dw, db, delta) \<Rightarrow>
        (let dw' = mul delta (transpose_m (as ! i)) # dw;
             db' = clone delta # db
         in if 0 < i
            then (case activations (hiddenActivation net) of
                    None \<Rightarrow> Inl TypeError
                  | Some act \<Rightarrow>
                      let dAct = map_m (zs ! (i - 1)) (\<lambda>x i. dfn act x)
                      in Inr (dw', db',
                              hadamard (mul (transpose_m (weights net ! i)) delta) dAct))
            else Inr (dw', db', delta)))"

definition backward ::
  "network \<Rightarrow> matrix \<Rightarrow> matrix \<Rightarrow> error + matrix list \<times> matrix list \<times> jsnum" where
  "backward net input target =
     (case forward net input of
        Inl e \<Rightarrow> Inl e
      | Inr (zs, as) \<Rightarrow>
          (let L = length (weights net);
               delta = sub (as ! L) target
           in case fold (\<lambda>i st. case st of Inl e \<Rightarrow> Inl e
                                  | Inr s \<Rightarrow> backward_step net zs as i s)
                        (rev [0..<L]) (Inr ([], [], delta)) of
                Inl e \<Rightarrow> Inl e
              | Inr (dw, db, d) \<Rightarrow> Inr (dw, db, crossEntropyLoss (as ! L) target)))"

section \<open>Training\<close>

text \<open>
  The configuration of \<^verbatim>\<open>train\<close>, every field given; the optional callback
  \<^verbatim>\<open>onEpoch\<close> is absent. \<^verbatim>\<open>epochs\<close> and \<^verbatim>\<open>batchSize\<close> are natural numbers.
\<close>

record config =
  lr :: jsnum
  epochs :: nat
  batchSize :: nat
  shuffle :: bool

record epoch_entry =
  epoch :: nat
  loss :: jsnum
  accuracy :: jsnum

type_synonym sample = "matrix \<times> matrix"

text \<open>Fisher-Yates: for \<^verbatim>\<open>i\<close> from \<^verbatim>\<open>n - 1\<close> down to 1, swap entries \<^verbatim>\<open>i\<close> and
  \<^verbatim>\<open>j = floor(random() * (i + 1))\<close>.\<close>

definition shuffle_indices :: "nat list \<Rightarrow> rng \<Rightarrow> nat \<Rightarrow> nat list \<times> nat" where
  "shuffle_indices indices rnd k =
     fold (\<lambda>i (ix, k). let j = nat \<lfloor>random rnd k * real (i + 1)\<rfloor>
                        in (ix[i := ix ! j, j := ix ! i], Suc k))
          (rev [1..<length indices]) (indices, k)"

text \<open>The accuracy check: the first index of the largest entry of the prediction and of
  the target, over the rows of the prediction.\<close>

definition argmax_pair :: "matrix \<Rightarrow> matrix \<Rightarrow> nat \<times> nat" where
  "argmax_pair pred target =
     fold (\<lambda>i (predMax, targMax).
             (if js_gt (f64_get (data pred) i) (f64_get (data pred) predMax) then i else predMax,
              if js_gt (f64_get (data target) i) (f64_get (data target) targMax) then i
              else targMax))
          [0..<rows pred] (0, 0)"

text \<open>\<^verbatim>\<open>accDw[i] = accDw[i].add(dw[i]); accDb[i] = accDb[i].add(db[i])\<close>: a missing
  accumulator is \<^verbatim>\<open>undefined\<close>, and the call on it a TypeError.\<close>

definition accumulate_step ::
  "matrix list \<Rightarrow> matrix list \<Rightarrow> nat \<Rightarrow> matrix list \<times> matrix list
     \<Rightarrow> error + matrix list \<times> matrix list" where
  "accumulate_step dw db i acc =
     (case acc of (accDw, accDb) \<Rightarrow>
        if i < length accDw \<and> i < length accDb
        then Inr (accDw[i := add (accDw ! i) (dw ! i)], accDb[i := add (accDb ! i) (db ! i)])
        else Inl TypeError)"

definition train_sample ::
  "network \<Rightarrow> sample list \<Rightarrow> nat \<Rightarrow> matrix list \<times> matrix list \<times> jsnum \<times> nat
     \<Rightarrow> error + matrix list \<times> matrix list \<times> jsnum \<times> nat" where
  "train_sample net samples idx st =
     (case st of (accDw, accDb, totalLoss, correct) \<Rightarrow>
        (case nth_opt samples idx of
           None \<Rightarrow> Inl TypeError
         | Some (input, target) \<Rightarrow>
             (case backward net input target of
                Inl e \<Rightarrow> Inl e
              | Inr (dw, db, sampleLoss) \<Rightarrow>
                  (case predict net input of
                     Inl e \<Rightarrow> Inl e
                   | Inr pred \<Rightarrow>
                       (let (predMax, targMax) = argmax_pair pred target;
                            correct' = (if predMax = targMax then correct + 1 else correct)
                        in case fold (\<lambda>i acc. case acc of Inl e \<Rightarrow> Inl e
                                               | Inr a \<Rightarrow> accumulate_step dw db i a)
                                     [0..<length dw] (Inr (accDw, accDb)) of
                             Inl e \<Rightarrow> Inl e
                           | Inr (accDw', accDb') \<Rightarrow>
                               Inr (accDw', accDb', totalLoss + sampleLoss, correct'))))))"

text \<open>\<^verbatim>\<open>this.weights[i] = this.weights[i].sub(accDw[i].scale(scale))\<close>, then the same
  for the bias.\<close>

definition update_step ::
  "matrix list \<Rightarrow> matrix list \<Rightarrow> jsnum \<Rightarrow> nat \<Rightarrow> network \<Rightarrow> error + network" where
  "update_step accDw accDb s i net =
     (if i < length accDw
      then (let net1 = net\<lparr>weights := (weights net)[i := sub (weights net ! i)
                                                              (scale (accDw ! i) s)]\<rparr>
            in if i < length (biases net1) \<and> i < length accDb
               then Inr (net1\<lparr>biases := (biases net1)[i := sub (biases net1 ! i)
                                                               (scale (accDb ! i) s)]\<rparr>)
               else Inl TypeError)
      else Inl TypeError)"

text \<open>The gradients of one batch, accumulated from zeroed accumulators.\<close>

definition accumulate_batch ::
  "network \<Rightarrow> sample list \<Rightarrow> nat list \<Rightarrow> jsnum \<times> nat
     \<Rightarrow> error + matrix list \<times> matrix list \<times> jsnum \<times> nat" where
  "accumulate_batch net samples batch st =
     (case st of (totalLoss, correct) \<Rightarrow>
        fold (\<lambda>idx acc. case acc of Inl e \<Rightarrow> Inl e | Inr a \<Rightarrow> train_sample net samples idx a)
             batch
             (Inr (map (\<lambda>w. zeros (rows w) (cols w)) (weights net),
                   map (\<lambda>b. zeros (rows b) (cols b)) (biases net),
                   totalLoss, correct)))"

text \<open>The body of the loop over the batches: accumulate, then apply the gradients.\<close>

definition train_batch ::
  "sample list \<Rightarrow> nat list \<Rightarrow> jsnum \<Rightarrow> network \<times> jsnum \<times> nat
     \<Rightarrow> error + network \<times> jsnum \<times> nat" where
  "train_batch samples batch rate st =
     (case st of (net, totalLoss, correct) \<Rightarrow>
        (case accumulate_batch net samples batch (totalLoss, correct) of
           Inl e \<Rightarrow> Inl e
         | Inr (accDw, accDb, totalLoss', correct') \<Rightarrow>
             (let s = js_div rate (Num (real (length batch)))
              in case fold (\<lambda>i n. case n of Inl e \<Rightarrow> Inl e
                                    | Inr n' \<Rightarrow> update_step accDw accDb s i n')
                           [0..<length (weights net)] (Inr net) of
                   Inl e \<Rightarrow> Inl e
                 | Inr net' \<Rightarrow> Inr (net', totalLoss', correct'))))"

text \<open>
  \<^verbatim>\<open>for (let b = 0; b < indices.length; b += batchSize)\<close> with the batch
  \<^verbatim>\<open>indices.slice(b, b + batchSize)\<close>. Nothing makes the loop end when
  \<^verbatim>\<open>batchSize\<close> is 0: not returning is the value \<open>None\<close>.
\<close>

partial_function (option) train_batches ::
  "sample list \<Rightarrow> nat list \<Rightarrow> nat \<Rightarrow> jsnum \<Rightarrow> nat \<Rightarrow> network \<times> jsnum \<times> nat
     \<Rightarrow> (error + network \<times> jsnum \<times> nat) option" where
  "train_batches samples indices bsz rate b st =
     (if b < length indices
      then (case train_batch samples (take bsz (drop b indices)) rate st of
              Inl e \<Rightarrow> Some (Inl e)
            | Inr st' \<Rightarrow> train_batches samples indices bsz rate (b + bsz) st')
      else Some (Inr st))"

definition train_epoch ::
  "sample list \<Rightarrow> config \<Rightarrow> rng \<Rightarrow> nat \<Rightarrow> network \<times> nat \<times> epoch_entry list
     \<Rightarrow> (error + network \<times> nat \<times> epoch_entry list) option" where
  "train_epoch samples cfg rnd ep st =
     (case st of (net, k, history) \<Rightarrow>
        (let indices0 = [0..<length samples];
             (indices, k') = (if shuffle cfg then shuffle_indices indices0 rnd k
                              else (indices0, k))
         in case train_batches samples indices (batchSize cfg) (lr cfg) 0 (net, 0, 0) of
              None \<Rightarrow> None
            | Some (Inl e) \<Rightarrow> Some (Inl e)
            | Some (Inr (net', totalLoss, correct)) \<Rightarrow>
                (let avgLoss = js_div totalLoss (Num (real (length samples)));
                     acc = js_div (Num (real correct)) (Num (real (length samples)))
                 in Some (Inr (net', k',
                      history @ [\<lparr>epoch = ep, loss = avgLoss, accuracy = acc\<rparr>])))))"

text \<open>\<^verbatim>\<open>train\<close>: the network after training, the position in the random sequence, and
  the history.\<close>

definition train ::
  "network \<Rightarrow> sample list \<Rightarrow> config \<Rightarrow> rng \<Rightarrow> nat
     \<Rightarrow> (error + network \<times> nat \<times> epoch_entry list) option" where
  "train net samples cfg rnd k =
     fold (\<lambda>ep st. case st of None \<Rightarrow> None | Some (Inl e) \<Rightarrow> Some (Inl e)
                     | Some (Inr s) \<Rightarrow> train_epoch samples cfg rnd ep s)
          [0..<epochs cfg] (Some (Inr (net, k, [])))"

section \<open>Serialisation\<close>

text \<open>
  \<^verbatim>\<open>save\<close> returns a JSON text; the text is represented by the record it parses to.
  \<^verbatim>\<open>JSON.stringify\<close> writes a finite number so that it parses back to the same
  number, and writes NaN and the infinities as \<^verbatim>\<open>null\<close>. A field of the snapshot
  may be missing; the dimensions of a matrix record are present and natural numbers.
\<close>

datatype json_num = JNum real | JNull

fun stringify_num :: "jsnum \<Rightarrow> json_num" where
  "stringify_num (Num r) = JNum r"
| "stringify_num PosInf = JNull"
| "stringify_num NegInf = JNull"
| "stringify_num NaN = JNull"

text \<open>Storing a parsed value in a \<^verbatim>\<open>Float64Array\<close> converts it to a number:
  \<^verbatim>\<open>null\<close> becomes 0.\<close>

fun to_number :: "json_num \<Rightarrow> jsnum" where
  "to_number (JNum r) = Num r"
| "to_number JNull = 0"

record matrix_json =
  j_rows :: nat
  j_cols :: nat
  j_data :: "json_num list option"

record snapshot =
  s_layerSizes :: "nat list option"
  s_hiddenActivation :: "string option"
  s_weights :: "matrix_json list option"
  s_biases :: "matrix_json list option"

definition toJSON :: "matrix \<Rightarrow> matrix_json" where
  "toJSON this =
     \<lparr>j_rows = rows this, j_cols = cols this, j_data = Some (map stringify_num (data this))\<rparr>"

definition fromJSON :: "matrix_json \<Rightarrow> matrix" where
  "fromJSON json =
     Matrix (j_rows json) (j_cols json)
       (case j_data json of None \<Rightarrow> NoData | Some a \<Rightarrow> Arr (map to_number a))"

definition save :: "network \<Rightarrow> snapshot" where
  "save net =
     \<lparr>s_layerSizes = Some (layerSizes net),
      s_hiddenActivation = Some (hiddenActivation net),
      s_weights = Some (map toJSON (weights net)),
      s_biases = Some (map toJSON (biases net))\<rparr>"

text \<open>
  \<^verbatim>\<open>load\<close>: a missing \<^verbatim>\<open>layerSizes\<close> makes the constructor read
  \<^verbatim>\<open>undefined.length\<close>, a missing \<^verbatim>\<open>weights\<close> or \<^verbatim>\<open>biases\<close> makes
  \<^verbatim>\<open>undefined.map\<close> the call; both are TypeErrors. A missing
  \<^verbatim>\<open>hiddenActivation\<close> is the constructor's default.
\<close>

definition load :: "snapshot \<Rightarrow> rng \<Rightarrow> nat \<Rightarrow> error + network \<times> nat" where
  "load snap rnd k =
     (case s_layerSizes snap of
        None \<Rightarrow> Inl TypeError
      | Some ls \<Rightarrow>
          (let (net, k') = Network ls (s_hiddenActivation snap) rnd k
           in case s_weights snap of
                None \<Rightarrow> Inl TypeError
              | Some ws \<Rightarrow>
                  (case s_biases snap of
                     None \<Rightarrow> Inl TypeError
                   | Some bs \<Rightarrow>
                       Inr (net\<lparr>weights := map fromJSON ws, biases := map fromJSON bs\<rparr>, k'))))"

section \<open>The passes on a store of buffers\<close>

text \<open>
  Whether a call changes the parameters of a network depends on which buffer each write
  goes to. Here the \<^verbatim>\<open>Float64Array\<close>s live in a store, a list of buffers addressed by
  position; a \<^verbatim>\<open>Matrix\<close> object is its two dimensions and the address of its buffer
  (no method assigns a field of a matrix after its construction). \<^verbatim>\<open>new Float64Array\<close>
  puts a buffer at the end of the store; \<^verbatim>\<open>m.data[i]\<close> reads and
  \<^verbatim>\<open>m.data[i] = v\<close> writes the buffer at the address of \<^verbatim>\<open>m\<close>. The arrays
  \<^verbatim>\<open>zs\<close>, \<^verbatim>\<open>as\<close>, \<^verbatim>\<open>dw\<close>, \<^verbatim>\<open>db\<close> are created by the call that fills
  them and are lists of matrix objects.
\<close>

type_synonym heap = "jsnum list list"

record mref =
  ref_rows :: nat
  ref_cols :: nat
  ref_data :: nat

definition buf :: "heap \<Rightarrow> nat \<Rightarrow> jsnum list" where
  "buf h a = (if a < length h then h ! a else [])"

definition rd :: "heap \<Rightarrow> nat \<Rightarrow> nat \<Rightarrow> jsnum" where
  "rd h a i = f64_get (buf h a) i"

definition wr :: "heap \<Rightarrow> nat \<Rightarrow> nat \<Rightarrow> jsnum \<Rightarrow> heap" where
  "wr h a i v = (if a < length h then h[a := f64_set (h ! a) i v] else h)"

text \<open>\<^verbatim>\<open>new Matrix(rows, cols)\<close>.\<close>

definition alloc_Matrix :: "nat \<Rightarrow> nat \<Rightarrow> heap \<Rightarrow> mref \<times> heap" where
  "alloc_Matrix r c h =
     (\<lparr>ref_rows = r, ref_cols = c, ref_data = length h\<rparr>, h @ [replicate (r * c) 0])"

text \<open>The methods of \<^verbatim>\<open>Matrix\<close> that the passes call, statement by statement.\<close>

definition add_h :: "mref \<Rightarrow> mref \<Rightarrow> heap \<Rightarrow> mref \<times> heap" where
  "add_h this other h =
     (let (out, h1) = alloc_Matrix (ref_rows this) (ref_cols this) h
      in (out, fold (\<lambda>i h. wr h (ref_data out) i
                               (rd h (ref_data this) i + rd h (ref_data other) i))
                    [0..<length (buf h1 (ref_data this))] h1))"

definition sub_h :: "mref \<Rightarrow> mref \<Rightarrow> heap \<Rightarrow> mref \<times> heap" where
  "sub_h this other h =
     (let (out, h1) = alloc_Matrix (ref_rows this) (ref_cols this) h
      in (out, fold (\<lambda>i h. wr h (ref_data out) i
                               (rd h (ref_data this) i - rd h (ref_data other) i))
                    [0..<length (buf h1 (ref_data this))] h1))"

definition mul_h :: "mref \<Rightarrow> mref \<Rightarrow> heap \<Rightarrow> mref \<times> heap" where
  "mul_h this other h =
     (let (out, h1) = alloc_Matrix (ref_rows this) (ref_cols other) h
      in (out,
          fold (\<lambda>i h.
                  fold (\<lambda>j h.
                          wr h (ref_data out) (i * ref_cols other + j)
                             (fold (\<lambda>k s. s + rd h (ref_data this) (i * ref_cols this + k)
                                               * rd h (ref_data other) (k * ref_cols other + j))
                                   [0..<ref_cols this] 0))
                       [0..<ref_cols other] h)
               [0..<ref_rows this] h1))"

definition hadamard_h :: "mref \<Rightarrow> mref \<Rightarrow> heap \<Rightarrow> mref \<times> heap" where
  "hadamard_h this other h =
     (let (out, h1) = alloc_Matrix (ref_rows this) (ref_cols this) h
      in (out, fold (\<lambda>i h. wr h (ref_data out) i
                               (rd h (ref_data this) i * rd h (ref_data other) i))
                    [0..<length (buf h1 (ref_data this))] h1))"

definition transpose_h :: "mref \<Rightarrow> heap \<Rightarrow> mref \<times> heap" where
  "transpose_h this h =
     (let (out, h1) = alloc_Matrix (ref_cols this) (ref_rows this) h
      in (out,
          fold (\<lambda>i h.
                  fold (\<lambda>j h. wr h (ref_data out) (j * ref_rows this + i)
                                  (rd h (ref_data this) (i * ref_cols this + j)))
                       [0..<ref_cols this] h)
               [0..<ref_rows this] h1))"

definition map_h :: "mref \<Rightarrow> (jsnum \<Rightarrow> nat \<Rightarrow> jsnum) \<Rightarrow> heap \<Rightarrow> mref \<times> heap" where
  "map_h this f h =
     (let (out, h1) = alloc_Matrix (ref_rows this) (ref_cols this) h
      in (out, fold (\<lambda>i h. wr h (ref_data out) i (f (rd h (ref_data this) i) i))
                    [0..<length (buf h1 (ref_data this))] h1))"

definition clone_h :: "mref \<Rightarrow> heap \<Rightarrow> mref \<times> heap" where
  "clone_h this h =
     (\<lparr>ref_rows = ref_rows this, ref_cols = ref_cols this, ref_data = length h\<rparr>,
      h @ [buf h (ref_data this)])"

definition softmax_h :: "mref \<Rightarrow> heap \<Rightarrow> mref \<times> heap" where
  "softmax_h vec h =
     (let (out, h1) = alloc_Matrix (ref_rows vec) 1 h;
          maxVal = fold (\<lambda>i m. if js_gt (rd h1 (ref_data vec) i) m then rd h1 (ref_data vec) i
                               else m)
                        [0..<ref_rows vec] NegInf;
          (h2, s) = fold (\<lambda>i (h, s).
                            let h' = wr h (ref_data out) i
                                        (js_exp (rd h (ref_data vec) i - maxVal))
                            in (h', s + rd h' (ref_data out) i))
                         [0..<ref_rows vec] (h1, 0)
      in (out, fold (\<lambda>i h. wr h (ref_data out) i (js_div (rd h (ref_data out) i) s))
                    [0..<ref_rows vec] h2))"

definition crossEntropyLoss_h :: "mref \<Rightarrow> mref \<Rightarrow> heap \<Rightarrow> jsnum" where
  "crossEntropyLoss_h predicted target h =
     fold (\<lambda>i l.
             if js_gt (rd h (ref_data target) i) 0
             then l - rd h (ref_data target) i
                        * js_log (js_max (rd h (ref_data predicted) i) (Num (1 / 10 ^ 15)))
             else l)
          [0..<ref_rows target] 0"

text \<open>
  The network object: its fields, the two arrays holding matrix objects. A method runs
  on the pair of the network object and the store and returns the pair as it leaves it,
  also when it raises.
\<close>

record network_obj =
  o_layerSizes :: "nat list"
  o_hiddenActivation :: string
  o_weights :: "mref list"
  o_biases :: "mref list"

type_synonym store = "network_obj \<times> heap"

definition add_arg_h :: "mref \<Rightarrow> mref option \<Rightarrow> heap \<Rightarrow> (error + mref) \<times> heap" where
  "add_arg_h this other h =
     (case other of
        Some b \<Rightarrow> (let (out, h') = add_h this b h in (Inr out, h'))
      | None \<Rightarrow> (let (out, h') = alloc_Matrix (ref_rows this) (ref_cols this) h
                 in if buf h' (ref_data this) = [] then (Inr out, h')
                    else (Inl TypeError, h')))"

definition forward_step_h ::
  "nat \<Rightarrow> mref list \<times> mref list \<times> mref \<Rightarrow> store
     \<Rightarrow> (error + mref list \<times> mref list \<times> mref) \<times> store" where
  "forward_step_h i st s =
     (case st of (zs, as, a) \<Rightarrow>
      (case s of (this, h) \<Rightarrow>
        (let (p, h1) = mul_h (o_weights this ! i) a h
         in case add_arg_h p (nth_opt (o_biases this) i) h1 of
              (Inl e, h2) \<Rightarrow> (Inl e, this, h2)
            | (Inr z, h2) \<Rightarrow>
                if i < length (o_weights this) - 1
                then (case activations (o_hiddenActivation this) of
                        None \<Rightarrow> (Inl TypeError, this, h2)
                      | Some act \<Rightarrow>
                          let (a', h3) = map_h z (\<lambda>x i. fn act x) h2
                          in (Inr (zs @ [z], as @ [a'], a'), this, h3))
                else (let (a', h3) = softmax_h z h2
                      in (Inr (zs @ [z], as @ [a'], a'), this, h3)))))"

definition forward_h ::
  "mref \<Rightarrow> store \<Rightarrow> (error + mref list \<times> mref list) \<times> store" where
  "forward_h input s =
     (case fold (\<lambda>i (st, s). case st of Inl e \<Rightarrow> (Inl e, s) | Inr t \<Rightarrow> forward_step_h i t s)
                [0..<length (o_weights (fst s))] (Inr ([], [input], input), s) of
        (Inl e, s') \<Rightarrow> (Inl e, s')
      | (Inr (zs, as, a), s') \<Rightarrow> (Inr (zs, as), s'))"

definition predict_h :: "mref \<Rightarrow> store \<Rightarrow> (error + mref) \<times> store" where
  "predict_h input s =
     (case forward_h input s of
        (Inl e, s') \<Rightarrow> (Inl e, s')
      | (Inr (zs, as), s') \<Rightarrow> (Inr (as ! (length as - 1)), s'))"

definition backward_step_h ::
  "mref list \<Rightarrow> mref list \<Rightarrow> nat \<Rightarrow> mref list \<times> mref list \<times> mref \<Rightarrow> store
     \<Rightarrow> (error + mref list \<times> mref list \<times> mref) \<times> store" where
  "backward_step_h zs as i st s =
     (case st of (dw, db, delta) \<Rightarrow>
      (case s of (this, h) \<Rightarrow>
        (let (t, h1) = transpose_h (as ! i) h;
             (g, h2) = mul_h delta t h1;
             (c, h3) = clone_h delta h2;
             dw' = g # dw;
             db' = c # db
         in if 0 < i
            then (case activations (o_hiddenActivation this) of
                    None \<Rightarrow> (Inl TypeError, this, h3)
                  | Some act \<Rightarrow>
                      let (dAct, h4) = map_h (zs ! (i - 1)) (\<lambda>x i. dfn act x) h3;
                          (wt, h5) = transpose_h (o_weights this ! i) h4;
                          (q, h6) = mul_h wt delta h5;
                          (delta', h7) = hadamard_h q dAct h6
                      in (Inr (dw', db', delta'), this, h7))
            else (Inr (dw', db', delta), this, h3))))"

definition backward_h ::
  "mref \<Rightarrow> mref \<Rightarrow> store \<Rightarrow> (error + mref list \<times> mref list \<times> jsnum) \<times> store" where
  "backward_h input target s =
     (case forward_h input s of
        (Inl e, s') \<Rightarrow> (Inl e, s')
      | (Inr (zs, as), (this, h)) \<Rightarrow>
          (let L = length (o_weights this);
               (delta, h1) = sub_h (as ! L) target h
           in case fold (\<lambda>i (st, s). case st of Inl e \<Rightarrow> (Inl e, s)
                                       | Inr t \<Rightarrow> backward_step_h zs as i t s)
                        (rev [0..<L]) (Inr ([], [], delta), (this, h1)) of
                (Inl e, s') \<Rightarrow> (Inl e, s')
              | (Inr (dw, db, d), (this', h')) \<Rightarrow>
                  (Inr (dw, db, crossEntropyLoss_h (as ! L) target h'), (this', h'))))"

text \<open>\<^verbatim>\<open>save\<close> on the store: it reads the buffers and writes none.\<close>

definition save_h :: "store \<Rightarrow> snapshot \<times> store" where
  "save_h s =
     (case s of (this, h) \<Rightarrow>
        (\<lparr>s_layerSizes = Some (o_layerSizes this),
          s_hiddenActivation = Some (o_hiddenActivation this),
          s_weights = Some (map (\<lambda>w. \<lparr>j_rows = ref_rows w, j_cols = ref_cols w,
                                      j_data = Some (map stringify_num (buf h (ref_data w)))\<rparr>)
                                (o_weights this)),
          s_biases = Some (map (\<lambda>b. \<lparr>j_rows = ref_rows b, j_cols = ref_cols b,
                                     j_data = Some (map stringify_num (buf h (ref_data b)))\<rparr>)
                               (o_biases this))\<rparr>,
         this, h))"

text \<open>The store after a call holds the store before it, followed by new buffers.\<close>

definition grows :: "heap \<Rightarrow> heap \<Rightarrow> bool" where
  "grows h h' \<longleftrightarrow> (\<exists>new. h' = h @ new)"

text \<open>
  What a matrix object stands for in a store: the matrix with its dimensions and the
  contents of its buffer. An object is valid when its buffer has been allocated; a valid
  object simulates the matrix it stands for, a network object the network of the matrices
  its arrays stand for, and so on for the states of the loops and for the results.
\<close>

definition deref :: "heap \<Rightarrow> mref \<Rightarrow> matrix" where
  "deref h r = \<lparr>rows = ref_rows r, cols = ref_cols r, data = buf h (ref_data r)\<rparr>"

definition valid :: "heap \<Rightarrow> mref \<Rightarrow> bool" where
  "valid h r \<longleftrightarrow> ref_data r < length h"

definition sim :: "heap \<Rightarrow> mref \<Rightarrow> matrix \<Rightarrow> bool" where
  "sim h r m \<longleftrightarrow> valid h r \<and> deref h r = m"

definition sim_net :: "heap \<Rightarrow> network_obj \<Rightarrow> network \<Rightarrow> bool" where
  "sim_net h this net \<longleftrightarrow>
     o_layerSizes this = layerSizes net \<and> o_hiddenActivation this = hiddenActivation net
     \<and> list_all2 (sim h) (o_weights this) (weights net)
     \<and> list_all2 (sim h) (o_biases this) (biases net)"

fun sim_state ::
  "heap \<Rightarrow> mref list \<times> mref list \<times> mref \<Rightarrow> matrix list \<times> matrix list \<times> matrix \<Rightarrow> bool" where
  "sim_state h (zs, as, a) (pzs, pas, pa) \<longleftrightarrow>
     list_all2 (sim h) zs pzs \<and> list_all2 (sim h) as pas \<and> sim h a pa"

fun sim_trace ::
  "heap \<Rightarrow> mref list \<times> mref list \<Rightarrow> matrix list \<times> matrix list \<Rightarrow> bool" where
  "sim_trace h (zs, as) (pzs, pas) \<longleftrightarrow> list_all2 (sim h) zs pzs \<and> list_all2 (sim h) as pas"

fun sim_gradients ::
  "heap \<Rightarrow> mref list \<times> mref list \<times> jsnum \<Rightarrow> matrix list \<times> matrix list \<times> jsnum \<Rightarrow> bool" where
  "sim_gradients h (dw, db, l) (pdw, pdb, pl) \<longleftrightarrow>
     list_all2 (sim h) dw pdw \<and> list_all2 (sim h) db pdb \<and> l = pl"

section \<open>Notions used in the statements\<close>

text \<open>The step of the backward pass from layer \<open>i\<close> to layer \<open>i - 1\<close>.\<close>

definition propagate :: "network \<Rightarrow> activation \<Rightarrow> matrix list \<Rightarrow> nat \<Rightarrow> matrix \<Rightarrow> matrix" where
  "propagate net act zs i delta =
     hadamard (mul (transpose_m (weights net ! i)) delta)
              (map_m (zs ! (i - 1)) (\<lambda>x k. dfn act x))"

text \<open>A network with one transition layer, one input and one output.\<close>

definition net1 :: network where
  "net1 = \<lparr>layerSizes = [1, 1], hiddenActivation = ''relu'',
           weights = [\<lparr>rows = 1, cols = 1, data = [Num 2]\<rparr>],
           biases = [\<lparr>rows = 1, cols = 1, data = [Num 0]\<rparr>]\<rparr>"

text \<open>
  A network with two transition layers, two inputs, one hidden unit and two outputs, with
  an input and a target for it.
\<close>

definition net2 :: network where
  "net2 = \<lparr>layerSizes = [2, 1, 2], hiddenActivation = ''relu'',
           weights = [\<lparr>rows = 1, cols = 2, data = [Num 1, Num 0]\<rparr>,
                      \<lparr>rows = 2, cols = 1, data = [Num 1, Num 2]\<rparr>],
           biases = [\<lparr>rows = 1, cols = 1, data = [Num (- 2)]\<rparr>,
                     \<lparr>rows = 2, cols = 1, data = [Num 1, Num 0]\<rparr>]\<rparr>"

definition input2 :: matrix where
  "input2 = \<lparr>rows = 2, cols = 1, data = [Num 3, Num 1]\<rparr>"

definition target2 :: matrix where
  "target2 = \<lparr>rows = 2, cols = 1, data = [Num 1, Num 0]\<rparr>"

definition sample2 :: sample where
  "sample2 = (input2, target2)"

text \<open>A column vector with \<open>n\<close> entries.\<close>

definition col_vec :: "nat \<Rightarrow> matrix \<Rightarrow> bool" where
  "col_vec n m \<longleftrightarrow> rows m = n \<and> cols m = 1 \<and> length (data m) = n"

text \<open>
  The invariant of the specification on a network: one more layer size than weight
  matrices, a bias per weight matrix, \<open>W\<^sub>i\<close> of shape
  \<open>n\<^bsub>i+1\<^esub> \<times> n\<^sub>i\<close> and \<open>b\<^sub>i\<close> a column of \<open>n\<^bsub>i+1\<^esub>\<close> entries.
\<close>

definition wf_net :: "network \<Rightarrow> bool" where
  "wf_net net \<longleftrightarrow>
     length (layerSizes net) = Suc (length (weights net))
   \<and> length (biases net) = length (weights net)
   \<and> (\<forall>i<length (weights net).
          wf_matrix (weights net ! i)
        \<and> rows (weights net ! i) = layerSizes net ! (i + 1)
        \<and> cols (weights net ! i) = layerSizes net ! i
        \<and> col_vec (layerSizes net ! (i + 1)) (biases net ! i))"

text \<open>Every weight and bias buffer has \<^verbatim>\<open>rows * cols\<close> entries.\<close>

definition wf_params :: "network \<Rightarrow> bool" where
  "wf_params net \<longleftrightarrow> list_all wf_matrix (weights net) \<and> list_all wf_matrix (biases net)"

text \<open>
  The entries of softmax over the reals: the exponential of the entry minus the maximum,
  as \<^verbatim>\<open>Math.exp\<close> gives it for an argument that is not positive, divided by the
  sum of these exponentials.
\<close>

definition softmax_real :: "real list \<Rightarrow> real list" where
  "softmax_real xs =
     map (\<lambda>k. math_exp (xs ! k - Max (set xs)) / (\<Sum>j<length xs. math_exp (xs ! j - Max (set xs))))
         [0..<length xs]"

text \<open>The number of random draws the constructor makes before it comes to layer \<open>i\<close>.\<close>

definition offset :: "nat list \<Rightarrow> nat \<Rightarrow> nat" where
  "offset ls i = (\<Sum>j<i. ls ! (j + 1) * ls ! j)"

text \<open>A matrix with \<^verbatim>\<open>data.length = rows * cols\<close> and finite entries only.\<close>

fun finite_num :: "jsnum \<Rightarrow> bool" where
  "finite_num (Num r) = True"
| "finite_num PosInf = False"
| "finite_num NegInf = False"
| "finite_num NaN = False"

definition finite_matrix :: "matrix \<Rightarrow> bool" where
  "finite_matrix m \<longleftrightarrow> wf_matrix m \<and> list_all finite_num (data m)"

text \<open>The comparison of two outputs in the repository's round-trip test:
  \<^verbatim>\<open>Math.abs(before[i] - after[i]) < 1e-10\<close>.\<close>

fun js_abs :: "jsnum \<Rightarrow> jsnum" where
  "js_abs (Num a) = Num \<bar>a\<bar>"
| "js_abs PosInf = PosInf"
| "js_abs NegInf = PosInf"
| "js_abs NaN = NaN"

definition agree :: "jsnum \<Rightarrow> jsnum \<Rightarrow> bool" where
  "agree a b \<longleftrightarrow> js_gt (Num (1 / 10 ^ 10)) (js_abs (a - b))"

text \<open>A random sequence whose every draw is 0.\<close>

definition zero_rng :: rng where
  "zero_rng k = 0"

text \<open>
  A network whose parameters are NaN, as they are after one update with a learning rate
  that is NaN, and the network with zero parameters.
\<close>

definition nan_net :: network where
  "nan_net = \<lparr>layerSizes = [1, 1], hiddenActivation = ''relu'',
              weights = [\<lparr>rows = 1, cols = 1, data = [NaN]\<rparr>],
              biases = [\<lparr>rows = 1, cols = 1, data = [NaN]\<rparr>]\<rparr>"

definition reloaded_net :: network where
  "reloaded_net = \<lparr>layerSizes = [1, 1], hiddenActivation = ''relu'',
              weights = [\<lparr>rows = 1, cols = 1, data = [Num 0]\<rparr>],
              biases = [\<lparr>rows = 1, cols = 1, data = [Num 0]\<rparr>]\<rparr>"

text \<open>
  A snapshot without \<^verbatim>\<open>hiddenActivation\<close>, whose weight record has one number for
  two entries and whose bias record has three.
\<close>

definition padded_snapshot :: snapshot where
  "padded_snapshot =
     \<lparr>s_layerSizes = Some [1, 2], s_hiddenActivation = None,
      s_weights = Some [\<lparr>j_rows = 2, j_cols = 1, j_data = Some [JNum 5]\<rparr>],
      s_biases = Some [\<lparr>j_rows = 2, j_cols = 1, j_data = Some [JNum 1, JNum 2, JNum 3]\<rparr>]\<rparr>"

text \<open>
  What the constructor establishes and \<^verbatim>\<open>train\<close> keeps: a bias for every weight
  matrix and a registered activation name.
\<close>

definition net_ok :: "network \<Rightarrow> bool" where
  "net_ok net \<longleftrightarrow> length (biases net) = length (weights net)
       \<and> activations (hiddenActivation net) \<noteq> None"

text \<open>The gradients of sample \<open>idx\<close> on a network: the \<^verbatim>\<open>dw\<close> and \<^verbatim>\<open>db\<close> of
  \<^verbatim>\<open>backward\<close>.\<close>

definition sample_dw :: "network \<Rightarrow> sample list \<Rightarrow> nat \<Rightarrow> matrix list" where
  "sample_dw net samples idx =
     (case backward net (fst (samples ! idx)) (snd (samples ! idx)) of
        Inr (dw, db, l) \<Rightarrow> dw | Inl e \<Rightarrow> [])"

definition sample_db :: "network \<Rightarrow> sample list \<Rightarrow> nat \<Rightarrow> matrix list" where
  "sample_db net samples idx =
     (case backward net (fst (samples ! idx)) (snd (samples ! idx)) of
        Inr (dw, db, l) \<Rightarrow> db | Inl e \<Rightarrow> [])"

text \<open>The network that the update loop of a batch leaves: every weight and bias replaced
  by the result of \<^verbatim>\<open>sub\<close> and \<^verbatim>\<open>scale\<close> on it.\<close>

definition updated :: "network \<Rightarrow> matrix list \<Rightarrow> matrix list \<Rightarrow> jsnum \<Rightarrow> network" where
  "updated net accDw accDb s =
     net\<lparr>weights := map (\<lambda>i. sub (weights net ! i) (scale (accDw ! i) s))
                         [0..<length (weights net)],
         biases := map (\<lambda>i. sub (biases net ! i) (scale (accDb ! i) s))
                        [0..<length (weights net)]\<rparr>"

text \<open>A sample for \<open>net1\<close>, and four configurations: a batch size above the
  number of samples; no epochs, no batch and a negative rate at once; a batch size of 0;
  a negative learning rate.\<close>

definition sample1 :: sample where
  "sample1 = (fromArray [Num 1], fromArray [Num 1])"

definition big_batch_cfg :: config where
  "big_batch_cfg = \<lparr>lr = Num 1, epochs = 1, batchSize = 3, shuffle = False\<rparr>"

definition invalid_cfg :: config where
  "invalid_cfg = \<lparr>lr = Num (- 1), epochs = 0, batchSize = 0, shuffle = True\<rparr>"

definition zero_batch_cfg :: config where
  "zero_batch_cfg = \<lparr>lr = Num 1, epochs = 1, batchSize = 0, shuffle = False\<rparr>"

definition negative_rate_cfg :: config where
  "negative_rate_cfg = \<lparr>lr = Num (- 1), epochs = 2, batchSize = 1, shuffle = True\<rparr>"

text \<open>A configuration whose learning rate is NaN.\<close>

definition nan_rate_cfg :: config where
  "nan_rate_cfg = \<lparr>lr = NaN, epochs = 1, batchSize = 1, shuffle = False\<rparr>"

section \<open>Loops over a buffer\<close>

lemma math_exp_0 [simp]: "math_exp 0 = 1"
  by (simp add: math_exp_def)

lemma f64_set_length [simp]: "length (f64_set d i v) = length d"
  by (simp add: f64_set_def)

lemma f64_set_nth: "k < length d \<Longrightarrow> f64_set d i v ! k = (if k = i then v else d ! k)"
  by (simp add: f64_set_def)

lemma loop_length [simp]:
  "length (fold (\<lambda>i d. f64_set d (idx i) (f i)) xs d) = length d"
  by (induction xs arbitrary: d) simp_all

lemma loop_nth:
  "k < length d \<Longrightarrow>
   fold (\<lambda>i d. f64_set d i (f i)) [0..<n] d ! k = (if k < n then f k else d ! k)"
  by (induction n) (auto simp: f64_set_nth less_Suc_eq)

lemma loop_data:
  "fold (\<lambda>i d. f64_set d i (f i)) [0..<n] (replicate m 0)
     = map (\<lambda>k. if k < n then f k else 0) [0..<m]"
  by (rule nth_equalityI) (simp_all add: loop_nth)

lemma nested_length [simp]:
  "length (fold (\<lambda>i d. fold (\<lambda>j d. f64_set d (idx i j) (g i j)) (ys i) d) xs d) = length d"
  by (induction xs arbitrary: d) simp_all

lemma inner_nth:
  "q < length d \<Longrightarrow>
   fold (\<lambda>j d. f64_set d (b + j) (h j)) [0..<p] d ! q
     = (if b \<le> q \<and> q < b + p then h (q - b) else d ! q)"
proof (induction p)
  case 0
  then show ?case by auto
next
  case (Suc p)
  have "q = b + p \<Longrightarrow> q - b = p" by simp
  with Suc show ?case
    by (auto simp: f64_set_nth less_Suc_eq)
qed

lemma rowmajor_nth:
  "q < length d \<Longrightarrow>
   fold (\<lambda>i d. fold (\<lambda>j d. f64_set d (i * p + j) (g i j)) [0..<p] d) [0..<m] d ! q
     = (if q < m * p then g (q div p) (q mod p) else d ! q)"
proof (induction m)
  case 0
  then show ?case by simp
next
  case (Suc m)
  show ?case
  proof (cases "m * p \<le> q \<and> q < m * p + p")
    case True
    then have "0 < p" by auto
    from True obtain r where r: "q = m * p + r" "r < p"
      by (metis add_diff_inverse_nat add_less_cancel_left linorder_not_less)
    then have "q div p = m" "q mod p = r" "q - m * p = r"
      by simp_all
    with True Suc.prems show ?thesis 
      by (simp add: inner_nth)
  next
    case False
    with Suc show ?thesis
      by (auto simp: inner_nth)
  qed
qed

lemma fold_sum: "fold (\<lambda>k s. s + f k) [0..<n] (a::jsnum) = a + sum f {..<n}"
  by (induction n) (simp_all add: add.assoc)

lemma Matrix_NoData_simps [simp]:
  "rows (Matrix r c NoData) = r" "cols (Matrix r c NoData) = c"
  "data (Matrix r c NoData) = replicate (r * c) 0"
  by simp_all

lemma add_shape: "rows (add A B) = rows A" "cols (add A B) = cols A"
  "length (data (add A B)) = rows A * cols A"
  by (simp_all add: add_def Let_def)

lemma add_data:
  "data (add A B) = map (\<lambda>k. if k < length (data A) then f64_get (data A) k + f64_get (data B) k else 0)
     [0..<rows A * cols A]"
  by (simp add: add_def Let_def loop_data)

lemma mul_entry_sum: "mul_entry A B i j = (\<Sum>k<cols A. get A i k * get B k j)"
  by (simp add: mul_entry_def get_def fold_sum)

lemma mul_shape: "rows (mul A B) = rows A" "cols (mul A B) = cols B"
  "length (data (mul A B)) = rows A * cols B"
  by (simp_all add: mul_def Let_def)

lemma rowmajor_index: "i < m \<Longrightarrow> j < p \<Longrightarrow> i * p + j < m * (p::nat)"
proof -
  assume a: "i < m" "j < p"
  then have "i * p + j < i * p + p" by simp
  also have "\<dots> = Suc i * p" by simp
  also from a have "\<dots> \<le> m * p" by (intro mult_le_mono1) simp
  finally show ?thesis .
qed

lemma mul_get:
  assumes "i < rows A" "j < cols B"
  shows "get (mul A B) i j = mul_entry A B i j"
proof -
  have q: "i * cols B + j < rows A * cols B"
    using assms by (rule rowmajor_index)
  then show ?thesis using assms
    by (simp add: get_def mul_def Let_def f64_get_def rowmajor_nth)
qed

lemma sub_shape: "rows (sub A B) = rows A" "cols (sub A B) = cols A"
  "length (data (sub A B)) = rows A * cols A"
  by (simp_all add: sub_def Let_def)

lemma sub_data:
  "data (sub A B) = map (\<lambda>k. if k < length (data A) then f64_get (data A) k - f64_get (data B) k else 0)
     [0..<rows A * cols A]"
  by (simp add: sub_def Let_def loop_data)

lemma hadamard_shape: "rows (hadamard A B) = rows A" "cols (hadamard A B) = cols A"
  "length (data (hadamard A B)) = rows A * cols A"
  by (simp_all add: hadamard_def Let_def)

lemma hadamard_data:
  "data (hadamard A B) = map (\<lambda>k. if k < length (data A) then f64_get (data A) k * f64_get (data B) k else 0)
     [0..<rows A * cols A]"
  by (simp add: hadamard_def Let_def loop_data)

lemma rowmajor_data:
  "fold (\<lambda>i d. fold (\<lambda>j d. f64_set d (i * p + j) (g i j)) [0..<p] d) [0..<m] (replicate (m * p) 0)
     = map (\<lambda>q. g (q div p) (q mod p)) [0..<m * p]"
  by (rule nth_equalityI) (simp_all add: rowmajor_nth)

lemma mul_data:
  "data (mul A B) = map (\<lambda>q. mul_entry A B (q div cols B) (q mod cols B)) [0..<rows A * cols B]"
  by (simp add: mul_def Let_def rowmajor_data)

lemma addVec_shape: "rows (addVec A v) = rows A" "cols (addVec A v) = cols A"
  "length (data (addVec A v)) = rows A * cols A"
  by (simp_all add: addVec_def Let_def)

lemma addVec_data:
  "data (addVec A v) = map (\<lambda>q. f64_get (data A) (q div cols A * cols A + q mod cols A)
                               + f64_get (data v) (q div cols A)) [0..<rows A * cols A]"
  by (simp add: addVec_def Let_def rowmajor_data)

lemma NaN_plus [simp]: "a + NaN = NaN" "NaN + a = NaN"
  by (cases a; simp)+

lemma NaN_minus [simp]: "a - NaN = NaN" "NaN - a = NaN"
  by (cases a; simp add: minus_jsnum_def)+

lemma NaN_times [simp]: "a * NaN = NaN" "NaN * a = NaN"
  by (cases a; simp)+

lemma sum_Num: "finite S \<Longrightarrow> (\<Sum>i\<in>S. Num (f i)) = Num (\<Sum>i\<in>S. f i)"
  by (induction S rule: finite_induct) (simp_all add: zero_jsnum_def)

lemma colmajor_inner:
  "q < length d \<Longrightarrow> i < m \<Longrightarrow>
   fold (\<lambda>j d. f64_set d (j * m + i) (h j)) [0..<p] d ! q
     = (if q mod m = i \<and> q div m < p then h (q div m) else d ! q)"
proof (induction p)
  case 0
  then show ?case by simp
next
  case (Suc p)
  have "q = p * m + i \<longleftrightarrow> q mod m = i \<and> q div m = p"
    using Suc.prems(2) by (auto simp: mult.commute)
  with Suc show ?case
    by (auto simp: f64_set_nth less_Suc_eq)
qed

lemma colmajor_nth:
  "q < length d \<Longrightarrow> n \<le> m \<Longrightarrow>
   fold (\<lambda>i d. fold (\<lambda>j d. f64_set d (j * m + i) (g i j)) [0..<p] d) [0..<n] d ! q
     = (if q mod m < n \<and> q div m < p then g (q mod m) (q div m) else d ! q)"
proof (induction n)
  case 0
  then show ?case by simp
next
  case (Suc n)
  then have "n < m" by simp
  with Suc show ?case
    by (auto simp: colmajor_inner less_Suc_eq)
qed

lemma colmajor_data:
  "fold (\<lambda>i d. fold (\<lambda>j d. f64_set d (j * m + i) (g i j)) [0..<p] d) [0..<m] (replicate (p * m) 0)
     = map (\<lambda>q. g (q mod m) (q div m)) [0..<p * m]"
proof (rule nth_equalityI)
  show "length (fold (\<lambda>i d. fold (\<lambda>j d. f64_set d (j * m + i) (g i j)) [0..<p] d) [0..<m]
                  (replicate (p * m) 0)) = length (map (\<lambda>q. g (q mod m) (q div m)) [0..<p * m])"
    by simp
next
  fix q
  assume "q < length (fold (\<lambda>i d. fold (\<lambda>j d. f64_set d (j * m + i) (g i j)) [0..<p] d) [0..<m]
                  (replicate (p * m) 0))"
  then have q: "q < p * m" by simp
  then have "0 < m" by (cases m) simp_all
  then have "q mod m < m" by simp
  moreover from q have "q div m < p"
    by (simp add: less_mult_imp_div_less)
  ultimately show "fold (\<lambda>i d. fold (\<lambda>j d. f64_set d (j * m + i) (g i j)) [0..<p] d) [0..<m]
                  (replicate (p * m) 0) ! q = map (\<lambda>q. g (q mod m) (q div m)) [0..<p * m] ! q"
    using q by (simp add: colmajor_nth)
qed

lemma transpose_entry:
  assumes "wf_matrix A" "i < rows A" "j < cols A"
  shows "data (transpose_m A) ! (j * rows A + i) = data A ! (i * cols A + j)"
proof -
  have q: "j * rows A + i < cols A * rows A"
    using assms(3,2) by (rule rowmajor_index)
  have k: "i * cols A + j < rows A * cols A"
    using assms(2,3) by (rule rowmajor_index)
  have "(j * rows A + i) mod rows A = i" "(j * rows A + i) div rows A = j"
    using assms(2) by simp_all
  with q k assms show ?thesis
    by (simp add: transpose_m_def Let_def colmajor_nth f64_get_def wf_matrix_def)
qed

lemma transpose_length: "length (data (transpose_m A)) = cols A * rows A"
  by (simp add: transpose_m_def Let_def)

lemma transpose_m_shape: "rows (transpose_m A) = cols A" "cols (transpose_m A) = rows A"
  by (simp_all add: transpose_m_def Let_def)

lemma map_m_shape: "rows (map_m A f) = rows A" "cols (map_m A f) = cols A"
  by (simp_all add: map_m_def Let_def)

lemma map_m_data:
  "data (map_m A f) = map (\<lambda>k. if k < length (data A) then f (f64_get (data A) k) k else 0)
     [0..<rows A * cols A]"
  by (simp add: map_m_def Let_def loop_data)

lemma scale_shape: "rows (scale A s) = rows A" "cols (scale A s) = cols A"
  "length (data (scale A s)) = rows A * cols A"
  by (simp_all add: scale_def Let_def)

lemma scale_data:
  "data (scale A s) = map (\<lambda>k. if k < length (data A) then f64_get (data A) k * s else 0)
     [0..<rows A * cols A]"
  by (simp add: scale_def Let_def loop_data)

lemma mul_val:
  "mul A B = \<lparr>rows = rows A, cols = cols B,
              data = map (\<lambda>q. mul_entry A B (q div cols B) (q mod cols B)) [0..<rows A * cols B]\<rparr>"
  by (simp add: mul_def Let_def rowmajor_data)

lemma add_val:
  "add A B = \<lparr>rows = rows A, cols = cols A,
              data = map (\<lambda>k. if k < length (data A) then f64_get (data A) k + f64_get (data B) k else 0)
                         [0..<rows A * cols A]\<rparr>"
  by (simp add: add_def Let_def loop_data)

lemma sub_val:
  "sub A B = \<lparr>rows = rows A, cols = cols A,
              data = map (\<lambda>k. if k < length (data A) then f64_get (data A) k - f64_get (data B) k else 0)
                         [0..<rows A * cols A]\<rparr>"
  by (simp add: sub_def Let_def loop_data)

lemma hadamard_val:
  "hadamard A B = \<lparr>rows = rows A, cols = cols A,
              data = map (\<lambda>k. if k < length (data A) then f64_get (data A) k * f64_get (data B) k else 0)
                         [0..<rows A * cols A]\<rparr>"
  by (simp add: hadamard_def Let_def loop_data)

lemma scale_val:
  "scale A s = \<lparr>rows = rows A, cols = cols A,
              data = map (\<lambda>k. if k < length (data A) then f64_get (data A) k * s else 0)
                         [0..<rows A * cols A]\<rparr>"
  by (simp add: scale_def Let_def loop_data)

lemma map_m_val:
  "map_m A f = \<lparr>rows = rows A, cols = cols A,
              data = map (\<lambda>k. if k < length (data A) then f (f64_get (data A) k) k else 0)
                         [0..<rows A * cols A]\<rparr>"
  by (simp add: map_m_def Let_def loop_data)

lemma transpose_val:
  "transpose_m A = \<lparr>rows = cols A, cols = rows A,
       data = map (\<lambda>q. f64_get (data A) (q mod rows A * cols A + q div rows A))
                  [0..<cols A * rows A]\<rparr>"
  by (simp add: transpose_m_def Let_def colmajor_data)

lemma upt2: "[0..<2] = [0, 1]"
  by (simp add: eval_nat_numeral)

lemma nth_1: "(x # y # xs) ! 1 = y"
  by simp

lemma nth_2: "(x # y # z # xs) ! 2 = z"
  by (simp add: eval_nat_numeral)

section \<open>The matrix product\<close>

text \<open>
  Claim C8. For matrices \<open>A\<close> of shape \<open>m \<times> n\<close> and \<open>B\<close> of shape \<open>n \<times> p\<close>, the product
  \<^verbatim>\<open>A.mul(B)\<close> has \<open>m\<close> rows and \<open>p\<close> columns, and its entry \<open>(i, j)\<close> is the sum
  over \<open>k\<close> of \<open>A[i,k] * B[k,j]\<close>.
\<close>

theorem mul_product:
  assumes "wf_matrix A" "wf_matrix B" "cols A = rows B"
  shows "rows (mul A B) = rows A \<and> cols (mul A B) = cols B \<and> wf_matrix (mul A B) \<and>
         (\<forall>i<rows A. \<forall>j<cols B. get (mul A B) i j = (\<Sum>k<cols A. get A i k * get B k j))"
  by (simp add: mul_shape wf_matrix_def mul_get mul_entry_sum)

theorem mul_product_witness:
  "wf_matrix \<lparr>rows = 2, cols = 2, data = [Num 1, Num 2, Num 3, Num 4]\<rparr>
   \<and> wf_matrix \<lparr>rows = 2, cols = 2, data = [Num 5, Num 6, Num 7, Num 8]\<rparr>
   \<and> rows (mul \<lparr>rows = 2, cols = 2, data = [Num 1, Num 2, Num 3, Num 4]\<rparr>
                \<lparr>rows = 2, cols = 2, data = [Num 5, Num 6, Num 7, Num 8]\<rparr>) = 2
   \<and> get (mul \<lparr>rows = 2, cols = 2, data = [Num 1, Num 2, Num 3, Num 4]\<rparr>
               \<lparr>rows = 2, cols = 2, data = [Num 5, Num 6, Num 7, Num 8]\<rparr>) 1 1 = Num 50"
proof -
  let ?A = "\<lparr>rows = 2, cols = 2, data = [Num 1, Num 2, Num 3, Num 4]\<rparr>"
  let ?B = "\<lparr>rows = 2, cols = 2, data = [Num 5, Num 6, Num 7, Num 8]\<rparr>"
  have a: "wf_matrix ?A" and b: "wf_matrix ?B" and c: "cols ?A = rows ?B"
    by (simp_all add: wf_matrix_def)
  from mul_product [OF a b c]
  have "rows (mul ?A ?B) = 2" and "get (mul ?A ?B) 1 1 = (\<Sum>k<2. get ?A 1 k * get ?B k 1)"
    by simp_all
  moreover have "(\<Sum>k<2. get ?A 1 k * get ?B k 1) = Num 50"
    by (simp add: get_def f64_get_def zero_jsnum_def eval_nat_numeral lessThan_Suc)
  ultimately show ?thesis
    using a b by simp
qed

text \<open>Where the entries that meet are finite, the sum is the sum of real numbers.\<close>

lemma mul_product_real:
  assumes "i < rows A" "j < cols B"
    and "\<forall>k<cols A. get A i k = Num (a k) \<and> get B k j = Num (b k)"
  shows "get (mul A B) i j = Num (\<Sum>k<cols A. a k * b k)"
proof -
  have "(\<Sum>k<cols A. get A i k * get B k j) = (\<Sum>k<cols A. Num (a k * b k))"
    by (rule sum.cong) (use assms(3) in simp_all)
  then show ?thesis
    using assms(1,2) by (simp add: mul_get mul_entry_sum sum_Num)
qed
section \<open>Operands of different shapes\<close>

text \<open>
  Claim C2, as amended. No matrix operation checks the shapes of its operands, and none
  fails on a mismatch. \<^verbatim>\<open>add\<close>, \<^verbatim>\<open>sub\<close>, \<^verbatim>\<open>hadamard\<close> and \<^verbatim>\<open>addVec\<close>
  return a matrix with the rows and columns of the receiver, \<^verbatim>\<open>mul\<close> one with the
  rows of the receiver and the columns of the argument, each with a buffer of rows times
  columns entries; where the receiver has an entry and the argument of \<^verbatim>\<open>add\<close>,
  \<^verbatim>\<open>sub\<close> or \<^verbatim>\<open>hadamard\<close> has none, the result entry is NaN.
\<close>

theorem shape_unchecked:
  "rows (add A B) = rows A \<and> cols (add A B) = cols A
     \<and> length (data (add A B)) = rows A * cols A
   \<and> rows (sub A B) = rows A \<and> cols (sub A B) = cols A
     \<and> length (data (sub A B)) = rows A * cols A
   \<and> rows (hadamard A B) = rows A \<and> cols (hadamard A B) = cols A
     \<and> length (data (hadamard A B)) = rows A * cols A
   \<and> rows (mul A B) = rows A \<and> cols (mul A B) = cols B
     \<and> length (data (mul A B)) = rows A * cols B
   \<and> rows (addVec A B) = rows A \<and> cols (addVec A B) = cols A
     \<and> length (data (addVec A B)) = rows A * cols A
   \<and> (\<forall>k. k < rows A * cols A \<and> k < length (data A) \<and> length (data B) \<le> k \<longrightarrow>
          data (add A B) ! k = NaN \<and> data (sub A B) ! k = NaN \<and> data (hadamard A B) ! k = NaN)"
  by (simp add: add_shape sub_shape hadamard_shape mul_shape addVec_shape
        add_data sub_data hadamard_data f64_get_def)

theorem shape_unchecked_witness:
  "data (add \<lparr>rows = 2, cols = 1, data = [Num 1, Num 2]\<rparr>
             \<lparr>rows = 1, cols = 1, data = [Num 5]\<rparr>) ! 1 = NaN"
  using shape_unchecked [of "\<lparr>rows = 2, cols = 1, data = [Num 1, Num 2]\<rparr>"
                            "\<lparr>rows = 1, cols = 1, data = [Num 5]\<rparr>"]
  by simp

text \<open>
  The claim C2 as stated fails: \<^verbatim>\<open>add\<close> on a \<open>2 \<times> 1\<close> receiver and a \<open>1 \<times> 1\<close>
  argument raises nothing and returns a \<open>2 \<times> 1\<close> matrix whose second entry is NaN.
\<close>

theorem add_mismatch:
  "add \<lparr>rows = 2, cols = 1, data = [Num 1, Num 2]\<rparr> \<lparr>rows = 1, cols = 1, data = [Num 5]\<rparr>
     = \<lparr>rows = 2, cols = 1, data = [Num 6, NaN]\<rparr>"
  by (simp add: add_def f64_get_def f64_set_def zero_jsnum_def eval_nat_numeral)

section \<open>Softmax\<close>

lemma softmax_max_finite:
  assumes "data vec = map Num xs" "n \<le> length xs"
  shows "fold (\<lambda>i maxVal. if js_gt (f64_get (data vec) i) maxVal then f64_get (data vec) i
                        else maxVal) [0..<n] NegInf
         = (if n = 0 then NegInf else Num (Max (set (take n xs))))"
  using assms(2)
proof (induction n)
  case 0
  then show ?case by simp
next
  case (Suc n)
  then have n: "n < length xs" by simp
  then have g: "f64_get (data vec) n = Num (xs ! n)"
    by (simp add: assms(1) f64_get_def)
  have t: "take (Suc n) xs = take n xs @ [xs ! n]"
    using n by (rule take_Suc_conv_app_nth)
  show ?case
  proof (cases "n = 0")
    case True
    with g t n show ?thesis by simp
  next
    case False
    then have ne: "set (take n xs) \<noteq> {}" using n by auto
    from False Suc have ih: "fold (\<lambda>i maxVal. if js_gt (f64_get (data vec) i) maxVal then f64_get (data vec) i
                        else maxVal) [0..<n] NegInf = Num (Max (set (take n xs)))"
      by simp
    have "Max (set (take (Suc n) xs)) = max (xs ! n) (Max (set (take n xs)))"
      using ne by (simp add: t)
    then show ?thesis
      by (simp add: ih g max_def)
  qed
qed

lemma exp_loop:
  "n' \<le> n \<Longrightarrow>
   fold (\<lambda>i (d, s). let d' = f64_set d i (e i) in (d', s + f64_get d' i))
        [0..<n'] (replicate n 0, 0)
     = (map (\<lambda>k. if k < n' then e k else 0) [0..<n], sum e {..<n'})"
proof (induction n')
  case 0
  then show ?case by (simp add: map_replicate_const)
next
  case (Suc n')
  then have lt: "n' < n" by simp
  have "f64_set (map (\<lambda>k. if k < n' then e k else 0) [0..<n]) n' (e n')
      = map (\<lambda>k. if k < Suc n' then e k else 0) [0..<n]"
    using lt by (auto simp: f64_set_def intro!: nth_equalityI simp: nth_list_update less_Suc_eq)
  with Suc lt show ?case
    by (simp add: Let_def f64_get_def add.commute)
qed

lemma div_loop_length:
   "length (fold (\<lambda>i d. f64_set d i (js_div (f64_get d i) s)) [0..<n] d) = length d"
  by (induction n) simp_all

lemma div_loop_nth:
  "k < length d \<Longrightarrow>
   fold (\<lambda>i d. f64_set d i (js_div (f64_get d i) s)) [0..<n] d ! k
     = (if k < n then js_div (d ! k) s else d ! k)"
proof (induction n)
  case 0
  then show ?case by simp
next
  case (Suc n)
  define D where "D = fold (\<lambda>i d. f64_set d i (js_div (f64_get d i) s)) [0..<n] d"
  have len: "length D = length d"
    by (simp add: D_def div_loop_length)
  have ih: "D ! k = (if k < n then js_div (d ! k) s else d ! k)"
    using Suc by (simp add: D_def)
  have "fold (\<lambda>i d. f64_set d i (js_div (f64_get d i) s)) [0..<Suc n] d
      = f64_set D n (js_div (f64_get D n) s)"
    by (simp add: D_def)
  moreover have "f64_set D n (js_div (f64_get D n) s) ! k
      = (if k < Suc n then js_div (d ! k) s else d ! k)"
  proof (cases "k = n")
    case True
    with Suc.prems len ih show ?thesis
      by (simp add: f64_set_nth f64_get_def)
  next
    case False
    with Suc.prems len ih show ?thesis
      by (auto simp: f64_set_nth less_Suc_eq)
  qed
  ultimately show ?case by simp
qed

lemma softmax_shape: "rows (softmax A) = rows A" "cols (softmax A) = 1"
  by (simp_all add: softmax_def Let_def split: prod.splits)

lemma exp_loop_length:
  "length (fst (fold (\<lambda>i (d, s). let d' = f64_set d i (e i) in (d', s + f64_get d' i)) xs (d, s)))
     = length d"
  by (induction xs arbitrary: d s) (simp_all add: Let_def)

lemma softmax_length: "length (data (softmax A)) = rows A"
proof -
  obtain d s where e: "softmax_exp A (softmax_max A) (replicate (rows A) 0) = (d, s)"
    by (cases "softmax_exp A (softmax_max A) (replicate (rows A) 0)")
  have "length (fst (softmax_exp A (softmax_max A) (replicate (rows A) 0))) = rows A"
    unfolding softmax_exp_def by (simp add: exp_loop_length)
  with e show ?thesis
    by (simp add: softmax_def Let_def div_loop_length)
qed


lemma math_exp_le_1: "a \<le> 0 \<Longrightarrow> math_exp a \<le> 1"
  by (simp add: math_exp_def)


lemma softmax_finite:
  assumes "data vec = map Num xs" "rows vec = length xs" "xs \<noteq> []"
  shows "softmax vec
     = \<lparr>rows = length xs, cols = 1,
        data = map (\<lambda>i. js_div (js_exp (Num (xs ! i) - Num (Max (set xs))))
                               (\<Sum>k<length xs. js_exp (Num (xs ! k) - Num (Max (set xs)))))
                   [0..<length xs]\<rparr>"
proof -
  let ?n = "length xs"
  let ?M = "Max (set xs)"
  let ?e = "\<lambda>k. js_exp (Num (xs ! k) - Num ?M)"
  have n0: "?n \<noteq> 0" using assms(3) by simp
  have mx: "softmax_max vec = Num ?M"
    using softmax_max_finite [OF assms(1), of ?n] n0
    by (simp add: softmax_max_def assms(2))
  have ex: "softmax_exp vec (Num ?M) (replicate ?n 0) = (map ?e [0..<?n], sum ?e {..<?n})"
  proof -
    have "fold (\<lambda>i (d, s). let d' = f64_set d i (js_exp (f64_get (data vec) i - Num ?M))
                        in (d', s + f64_get d' i)) [0..<?n] (replicate ?n 0, 0)
      = (map (\<lambda>k. if k < ?n then js_exp (f64_get (data vec) k - Num ?M) else 0) [0..<?n],
         sum (\<lambda>k. js_exp (f64_get (data vec) k - Num ?M)) {..<?n})"
      by (rule exp_loop) simp
    also have "map (\<lambda>k. if k < ?n then js_exp (f64_get (data vec) k - Num ?M) else 0) [0..<?n]
       = map ?e [0..<?n]"
      by (rule map_cong) (simp_all add: assms(1) f64_get_def)
    also have "sum (\<lambda>k. js_exp (f64_get (data vec) k - Num ?M)) {..<?n} = sum ?e {..<?n}"
      by (rule sum.cong) (simp_all add: assms(1) f64_get_def)
    finally show ?thesis
      by (simp add: softmax_exp_def assms(2))
  qed
  have "fold (\<lambda>i d. f64_set d i (js_div (f64_get d i) (sum ?e {..<?n}))) [0..<?n] (map ?e [0..<?n])
      = map (\<lambda>i. js_div (?e i) (sum ?e {..<?n})) [0..<?n]"
    by (intro nth_equalityI) (simp_all add: div_loop_length div_loop_nth)
  then show ?thesis
    by (simp add: softmax_def mx ex assms(2) Let_def)
qed

lemma softmax_real_length [simp]: "length (softmax_real xs) = length xs"
  by (simp add: softmax_real_def)









section \<open>The forward and the backward pass\<close>

lemma forward_step_ok:
  assumes "i < length (biases net)" "activations (hiddenActivation net) = Some act"
  shows "\<exists>z a. forward_step net i (zs, as, x) = Inr (zs @ [z], as @ [a], a)"
  using assms by (simp add: forward_step_def add_arg_def nth_opt_def Let_def)

lemma forward_loop_ok:
  assumes "n \<le> length (biases net)" "activations (hiddenActivation net) = Some act"
  shows "\<exists>zs as a. fold (\<lambda>i st. case st of Inl e \<Rightarrow> Inl e | Inr s \<Rightarrow> forward_step net i s)
                [0..<n] (Inr ([], [input], input)) = Inr (zs, as, a)
            \<and> length zs = n \<and> length as = Suc n \<and> as ! 0 = input"
  using assms(1)
proof (induction n)
  case 0
  then show ?case by simp
next
  case (Suc n)
  then obtain zs as a where
    h: "fold (\<lambda>i st. case st of Inl e \<Rightarrow> Inl e | Inr s \<Rightarrow> forward_step net i s)
                [0..<n] (Inr ([], [input], input)) = Inr (zs, as, a)"
       "length zs = n" "length as = Suc n" "as ! 0 = input"
    by auto
  from Suc.prems have "n < length (biases net)" by simp
  from forward_step_ok [OF this assms(2)] obtain z a' where
    "forward_step net n (zs, as, a) = Inr (zs @ [z], as @ [a'], a')"
    by blast
  with h show ?case
    by (simp add: nth_append)
qed

lemma forward_ok:
  assumes "length (biases net) = length (weights net)"
    "activations (hiddenActivation net) = Some act"
  shows "\<exists>zs as. forward net input = Inr (zs, as) \<and> length zs = length (weights net)
            \<and> length as = Suc (length (weights net)) \<and> as ! 0 = input"
proof -
  have "length (weights net) \<le> length (biases net)" using assms(1) by simp
  from forward_loop_ok [OF this assms(2)] obtain zs as a where
    "fold (\<lambda>i st. case st of Inl e \<Rightarrow> Inl e | Inr s \<Rightarrow> forward_step net i s)
                [0..<length (weights net)] (Inr ([], [input], input)) = Inr (zs, as, a)"
    "length zs = length (weights net)" "length as = Suc (length (weights net))" "as ! 0 = input"
    by blast
  then show ?thesis by (simp add: forward_def)
qed

lemma clone_id [simp]: "clone m = m"
  by (simp add: clone_def)

lemma delta_shift:
  "i < n \<Longrightarrow> fold (propagate net act zs) (rev [Suc i..<Suc n]) delta
     = fold (propagate net act zs) (rev [Suc i..<n]) (propagate net act zs n delta)"
  by simp

lemma backward_loop:
  assumes "activations (hiddenActivation net) = Some act"
  shows "fold (\<lambda>i st. case st of Inl e \<Rightarrow> Inl e | Inr s \<Rightarrow> backward_step net zs as i s)
              (rev [0..<n]) (Inr (dw, db, delta))
         = Inr (map (\<lambda>i. mul (fold (propagate net act zs) (rev [Suc i..<n]) delta)
                              (transpose_m (as ! i))) [0..<n] @ dw,
                map (\<lambda>i. fold (propagate net act zs) (rev [Suc i..<n]) delta) [0..<n] @ db,
                fold (propagate net act zs) (rev [1..<n]) delta)"
proof (induction n arbitrary: dw db delta)
  case 0
  then show ?case by simp
next
  case (Suc n)
  let ?F = "\<lambda>i st. case st of Inl e \<Rightarrow> Inl e | Inr s \<Rightarrow> backward_step net zs as i s"
  let ?D = "\<lambda>n delta i. fold (propagate net act zs) (rev [Suc i..<n]) delta"
  define delta' where "delta' = (if 0 < n then propagate net act zs n delta else delta)"
  have step: "backward_step net zs as n (dw, db, delta)
      = Inr (mul delta (transpose_m (as ! n)) # dw, delta # db, delta')"
    using assms by (simp add: backward_step_def propagate_def Let_def delta'_def)
  have "fold ?F (rev [0..<Suc n]) (Inr (dw, db, delta))
      = fold ?F (rev [0..<n]) (Inr (mul delta (transpose_m (as ! n)) # dw, delta # db, delta'))"
    by (simp add: step)
  also have "\<dots> = Inr (map (\<lambda>i. mul (?D n delta' i) (transpose_m (as ! i))) [0..<n]
                          @ mul delta (transpose_m (as ! n)) # dw,
                        map (?D n delta') [0..<n] @ delta # db,
                        fold (propagate net act zs) (rev [1..<n]) delta')"
    by (rule Suc.IH)
  finally have run: "fold ?F (rev [0..<Suc n]) (Inr (dw, db, delta))
      = Inr (map (\<lambda>i. mul (?D n delta' i) (transpose_m (as ! i))) [0..<n]
                          @ mul delta (transpose_m (as ! n)) # dw,
                        map (?D n delta') [0..<n] @ delta # db,
                        fold (propagate net act zs) (rev [1..<n]) delta')" .
  have D: "\<And>i. i < n \<Longrightarrow> ?D (Suc n) delta i = ?D n delta' i"
    by (simp add: delta'_def)
  have m1: "map (\<lambda>i. mul (?D (Suc n) delta i) (transpose_m (as ! i))) [0..<Suc n]
      = map (\<lambda>i. mul (?D n delta' i) (transpose_m (as ! i))) [0..<n]
          @ [mul delta (transpose_m (as ! n))]"
    using D by simp
  have m2: "map (?D (Suc n) delta) [0..<Suc n] = map (?D n delta') [0..<n] @ [delta]"
    using D by simp
  have m3: "fold (propagate net act zs) (rev [1..<Suc n]) delta
      = fold (propagate net act zs) (rev [1..<n]) delta'"
    by (simp add: delta'_def)
  show ?case
    unfolding run m1 m2 m3 by simp
qed

text \<open>The outer product of two columns, and the step of the backward pass, entry by
  entry.\<close>

lemma outer_product:
  assumes "col_vec n d" "col_vec p a" "r < n" "c < p"
  shows "data (mul d (transpose_m a)) ! (r * p + c) = data d ! r * data a ! c"
proof -
  let ?T = "transpose_m a"
  from assms(2) have wa: "wf_matrix a" "rows a = p" "cols a = 1"
    by (simp_all add: col_vec_def wf_matrix_def)
  from assms(1) have d: "rows d = n" "cols d = 1" "length (data d) = n"
    by (simp_all add: col_vec_def)
  have T: "rows ?T = 1" "cols ?T = p" "length (data ?T) = p"
    using wa by (simp_all add: transpose_m_shape transpose_length)
  have "data ?T ! (0 * rows a + c) = data a ! (c * cols a + 0)"
    using wa assms(4) by (intro transpose_entry) simp_all
  then have tc: "data ?T ! c = data a ! c"
    using wa by simp
  have q: "r * p + c < n * p"
    using assms(3,4) by (rule rowmajor_index)
  have "get (mul d ?T) r c = mul_entry d ?T r c"
    using assms(3,4) d T by (intro mul_get) simp_all
  also have "\<dots> = get d r 0 * get ?T 0 c"
    by (simp add: mul_entry_sum d)
  also have "\<dots> = data d ! r * data a ! c"
    using assms(3,4) d T tc by (simp add: get_def f64_get_def)
  finally show ?thesis
    using q d T by (simp add: get_def f64_get_def mul_shape)
qed

lemma outer_product_shape:
  assumes "col_vec n d" "col_vec p a"
  shows "rows (mul d (transpose_m a)) = n" "cols (mul d (transpose_m a)) = p"
    "length (data (mul d (transpose_m a))) = n * p"
  using assms by (simp_all add: mul_shape transpose_m_shape col_vec_def)

lemma propagate_entry:
  assumes "wf_matrix W" "rows W = n" "cols W = p" "col_vec n d" "col_vec p z" "r < p"
  shows "data (hadamard (mul (transpose_m W) d) (map_m z (\<lambda>x k. f x))) ! r
         = (\<Sum>k<n. data W ! (k * p + r) * data d ! k) * f (data z ! r)"
proof -
  let ?T = "transpose_m W"
  let ?Q = "mul ?T d"
  from assms(4) have d: "rows d = n" "cols d = 1" "length (data d) = n"
    by (simp_all add: col_vec_def)
  from assms(5) have z: "rows z = p" "cols z = 1" "length (data z) = p"
    by (simp_all add: col_vec_def)
  have T: "rows ?T = p" "cols ?T = n" "length (data ?T) = p * n"
    using assms(2,3) by (simp_all add: transpose_m_shape transpose_length)
  have Q: "rows ?Q = p" "cols ?Q = 1" "length (data ?Q) = p"
    using T d by (simp_all add: mul_shape)
  have te: "get ?T r k = data W ! (k * p + r)" if "k < n" for k
  proof -
    have "r * n + k < p * n" using assms(6) that by (rule rowmajor_index)
    moreover have "data ?T ! (r * rows W + k) = data W ! (k * cols W + r)"
      using assms(1,2,3,6) that by (intro transpose_entry) simp_all
    ultimately show ?thesis
      using T assms(2,3) by (simp add: get_def f64_get_def)
  qed
  have de: "get d k 0 = data d ! k" if "k < n" for k
    using that d by (simp add: get_def f64_get_def)
  have "get ?Q r 0 = mul_entry ?T d r 0"
    using assms(6) T d by (intro mul_get) simp_all
  also have "\<dots> = (\<Sum>k<n. get ?T r k * get d k 0)"
    by (simp add: mul_entry_sum T)
  also have "\<dots> = (\<Sum>k<n. data W ! (k * p + r) * data d ! k)"
    by (rule sum.cong) (simp_all add: te de)
  finally have q: "data ?Q ! r = (\<Sum>k<n. data W ! (k * p + r) * data d ! k)"
    using assms(6) Q by (simp add: get_def f64_get_def)
  have m: "f64_get (data (map_m z (\<lambda>x k. f x))) r = f (data z ! r)"
    using assms(6) z by (simp add: map_m_data f64_get_def)
  show ?thesis
    using assms(6) Q q m by (simp add: hadamard_data f64_get_def)
qed

lemma propagate_shape:
  assumes "cols W = p" "cols d = 1"
  shows "col_vec p (hadamard (mul (transpose_m W) d) M)"
  using assms by (simp add: col_vec_def hadamard_shape mul_shape transpose_m_shape)

lemma sub_entry:
  assumes "col_vec n a" "length (data t) = n" "r < n"
  shows "data (sub a t) ! r = data a ! r - data t ! r"
  using assms by (simp add: sub_data col_vec_def f64_get_def)

lemma sub_col_vec: "col_vec n a \<Longrightarrow> col_vec n (sub a t)"
  by (simp add: col_vec_def sub_shape)

lemma crossEntropyLoss_entries:
  assumes "rows t = n" "length (data t) = n" "length (data p) = n"
  shows "crossEntropyLoss p t
         = fold (\<lambda>i l. if js_gt (data t ! i) 0
                        then l - data t ! i * js_log (js_max (data p ! i) (Num (1 / 10 ^ 15)))
                        else l) [0..<n] 0"
  unfolding crossEntropyLoss_def assms(1)
  by (rule fold_cong) (simp_all add: f64_get_def assms(2,3) cong: if_cong)

lemma forward_step_shape:
  assumes "i < length (biases net)" "activations (hiddenActivation net) = Some act"
    "cols x = 1"
  shows "\<exists>z a. forward_step net i (zs, as, x) = Inr (zs @ [z], as @ [a], a)
           \<and> col_vec (rows (weights net ! i)) z \<and> col_vec (rows (weights net ! i)) a"
  using assms
  by (simp add: forward_step_def add_arg_def nth_opt_def Let_def col_vec_def
        add_shape mul_shape map_m_shape map_m_data softmax_shape softmax_length)

lemma forward_loop_shape:
  assumes "wf_net net" "activations (hiddenActivation net) = Some act"
    "col_vec (layerSizes net ! 0) input" "n \<le> length (weights net)"
  shows "\<exists>zs as. fold (\<lambda>i st. case st of Inl e \<Rightarrow> Inl e | Inr s \<Rightarrow> forward_step net i s)
                [0..<n] (Inr ([], [input], input)) = Inr (zs, as, as ! n)
            \<and> length zs = n \<and> length as = Suc n
            \<and> (\<forall>i<n. col_vec (layerSizes net ! (i + 1)) (zs ! i))
            \<and> (\<forall>i\<le>n. col_vec (layerSizes net ! i) (as ! i))"
  using assms(4)
proof (induction n)
  case 0
  then show ?case using assms(3) by simp
next
  case (Suc n)
  then obtain zs as where
    h: "fold (\<lambda>i st. case st of Inl e \<Rightarrow> Inl e | Inr s \<Rightarrow> forward_step net i s)
                [0..<n] (Inr ([], [input], input)) = Inr (zs, as, as ! n)"
       "length zs = n" "length as = Suc n"
       "\<forall>i<n. col_vec (layerSizes net ! (i + 1)) (zs ! i)"
       "\<forall>i\<le>n. col_vec (layerSizes net ! i) (as ! i)"
    by auto
  from Suc.prems assms(1) have n: "n < length (biases net)"
    and r: "rows (weights net ! n) = layerSizes net ! (n + 1)"
    by (simp_all add: wf_net_def)
  from h(5) have "cols (as ! n) = 1" by (simp add: col_vec_def)
  from forward_step_shape [OF n assms(2) this, of zs as] obtain z a where
    st: "forward_step net n (zs, as, as ! n) = Inr (zs @ [z], as @ [a], a)"
    and sh: "col_vec (layerSizes net ! (n + 1)) z" "col_vec (layerSizes net ! (n + 1)) a"
    unfolding r by blast
  have "fold (\<lambda>i st. case st of Inl e \<Rightarrow> Inl e | Inr s \<Rightarrow> forward_step net i s)
                [0..<Suc n] (Inr ([], [input], input))
      = Inr (zs @ [z], as @ [a], (as @ [a]) ! Suc n)"
    using h st by (simp add: nth_append)
  moreover have "\<forall>i<Suc n. col_vec (layerSizes net ! (i + 1)) ((zs @ [z]) ! i)"
    using h(2,4) sh(1) by (auto simp: nth_append less_Suc_eq)
  moreover have "\<forall>i\<le>Suc n. col_vec (layerSizes net ! i) ((as @ [a]) ! i)"
    using h(3,5) sh(2) by (auto simp: nth_append le_Suc_eq)
  ultimately show ?case
    using h(2,3)
    by (intro exI [of _ "zs @ [z]"] exI [of _ "as @ [a]"]) simp
qed

lemma forward_shape:
  assumes "wf_net net" "activations (hiddenActivation net) = Some act"
    "col_vec (layerSizes net ! 0) input"
  shows "\<exists>zs as. forward net input = Inr (zs, as)
            \<and> length zs = length (weights net) \<and> length as = Suc (length (weights net))
            \<and> (\<forall>i<length (weights net). col_vec (layerSizes net ! (i + 1)) (zs ! i))
            \<and> (\<forall>i\<le>length (weights net). col_vec (layerSizes net ! i) (as ! i))"
proof -
  from forward_loop_shape [OF assms, of "length (weights net)"] obtain zs as where
    "fold (\<lambda>i st. case st of Inl e \<Rightarrow> Inl e | Inr s \<Rightarrow> forward_step net i s)
                [0..<length (weights net)] (Inr ([], [input], input))
       = Inr (zs, as, as ! length (weights net))"
    "length zs = length (weights net)" "length as = Suc (length (weights net))"
    "\<forall>i<length (weights net). col_vec (layerSizes net ! (i + 1)) (zs ! i)"
    "\<forall>i\<le>length (weights net). col_vec (layerSizes net ! i) (as ! i)"
    by auto
  then show ?thesis
    by (intro exI [of _ zs] exI [of _ as]) (simp add: forward_def)
qed

text \<open>The passes on the network \<open>net2\<close>, step by step.\<close>

lemma mul_net2_0: "mul \<lparr>rows = 1, cols = 2, data = [Num 1, Num 0]\<rparr> input2
    = \<lparr>rows = 1, cols = 1, data = [Num 3]\<rparr>"
  by (simp add: mul_val mul_entry_def input2_def f64_get_def zero_jsnum_def upt2)

lemma add_net2_0: "add \<lparr>rows = 1, cols = 1, data = [Num 3]\<rparr> \<lparr>rows = 1, cols = 1, data = [Num (- 2)]\<rparr>
    = \<lparr>rows = 1, cols = 1, data = [Num 1]\<rparr>"
  by (simp add: add_val f64_get_def)

lemma relu_net2: "map_m \<lparr>rows = 1, cols = 1, data = [Num 1]\<rparr> (\<lambda>x i. fn relu x)
    = \<lparr>rows = 1, cols = 1, data = [Num 1]\<rparr>"
  by (simp add: map_m_val f64_get_def relu_def zero_jsnum_def)

lemma mul_net2_1: "mul \<lparr>rows = 2, cols = 1, data = [Num 1, Num 2]\<rparr> \<lparr>rows = 1, cols = 1, data = [Num 1]\<rparr>
    = \<lparr>rows = 2, cols = 1, data = [Num 1, Num 2]\<rparr>"
  by (simp add: mul_val mul_entry_def f64_get_def zero_jsnum_def upt2)

lemma add_net2_1: "add \<lparr>rows = 2, cols = 1, data = [Num 1, Num 2]\<rparr> \<lparr>rows = 2, cols = 1, data = [Num 1, Num 0]\<rparr>
    = \<lparr>rows = 2, cols = 1, data = [Num 2, Num 2]\<rparr>"
  by (simp add: add_val f64_get_def upt2)

lemma softmax_net2: "softmax \<lparr>rows = 2, cols = 1, data = [Num 2, Num 2]\<rparr>
    = \<lparr>rows = 2, cols = 1, data = [Num (1 / 2), Num (1 / 2)]\<rparr>"
proof -
  have "softmax \<lparr>rows = 2, cols = 1, data = [Num 2, Num 2]\<rparr>
     = \<lparr>rows = length [2::real, 2], cols = 1,
        data = map (\<lambda>i. js_div (js_exp (Num ([2, 2] ! i) - Num (Max (set [2, 2]))))
                               (\<Sum>k<length [2::real, 2]. js_exp (Num ([2, 2] ! k) - Num (Max (set [2, 2])))))
                   [0..<length [2::real, 2]]\<rparr>"
    by (rule softmax_finite) simp_all
  then show ?thesis
    by (simp add: upt2 minus_jsnum_def lessThan_Suc eval_nat_numeral)
qed

lemma net2_length: "length (weights net2) = 2"
  by (simp add: net2_def)

lemma forward_step_net2_0:
  "forward_step net2 0 ([], [input2], input2)
     = Inr ([\<lparr>rows = 1, cols = 1, data = [Num 1]\<rparr>],
            [input2, \<lparr>rows = 1, cols = 1, data = [Num 1]\<rparr>], \<lparr>rows = 1, cols = 1, data = [Num 1]\<rparr>)"
  by (simp add: forward_step_def net2_def add_arg_def nth_opt_def activations_def
        mul_net2_0 add_net2_0 relu_net2 Let_def del: One_nat_def)

lemma forward_step_net2_1:
  "forward_step net2 1 ([\<lparr>rows = 1, cols = 1, data = [Num 1]\<rparr>],
            [input2, \<lparr>rows = 1, cols = 1, data = [Num 1]\<rparr>], \<lparr>rows = 1, cols = 1, data = [Num 1]\<rparr>)
     = Inr ([\<lparr>rows = 1, cols = 1, data = [Num 1]\<rparr>, \<lparr>rows = 2, cols = 1, data = [Num 2, Num 2]\<rparr>],
            [input2, \<lparr>rows = 1, cols = 1, data = [Num 1]\<rparr>,
             \<lparr>rows = 2, cols = 1, data = [Num (1 / 2), Num (1 / 2)]\<rparr>],
            \<lparr>rows = 2, cols = 1, data = [Num (1 / 2), Num (1 / 2)]\<rparr>)"
  by (simp add: forward_step_def net2_def add_arg_def nth_opt_def activations_def nth_1
        mul_net2_1 add_net2_1 softmax_net2 Let_def del: One_nat_def)

lemma forward_net2:
  "forward net2 input2
     = Inr ([\<lparr>rows = 1, cols = 1, data = [Num 1]\<rparr>, \<lparr>rows = 2, cols = 1, data = [Num 2, Num 2]\<rparr>],
            [input2, \<lparr>rows = 1, cols = 1, data = [Num 1]\<rparr>,
             \<lparr>rows = 2, cols = 1, data = [Num (1 / 2), Num (1 / 2)]\<rparr>])"
  by (simp add: forward_def net2_length upt2 forward_step_net2_0 forward_step_net2_1
        del: One_nat_def)

lemma delta_net2: "sub \<lparr>rows = 2, cols = 1, data = [Num (1 / 2), Num (1 / 2)]\<rparr> target2
    = \<lparr>rows = 2, cols = 1, data = [Num (- (1 / 2)), Num (1 / 2)]\<rparr>"
  by (simp add: sub_val target2_def f64_get_def minus_jsnum_def upt2)

lemma dw_net2_1: "mul \<lparr>rows = 2, cols = 1, data = [Num (- (1 / 2)), Num (1 / 2)]\<rparr>
                      (transpose_m \<lparr>rows = 1, cols = 1, data = [Num 1]\<rparr>)
    = \<lparr>rows = 2, cols = 1, data = [Num (- (1 / 2)), Num (1 / 2)]\<rparr>"
  by (simp add: transpose_val mul_val mul_entry_def f64_get_def zero_jsnum_def upt2)

lemma delta_net2_0:
  "hadamard (mul (transpose_m \<lparr>rows = 2, cols = 1, data = [Num 1, Num 2]\<rparr>)
                 \<lparr>rows = 2, cols = 1, data = [Num (- (1 / 2)), Num (1 / 2)]\<rparr>)
            (map_m \<lparr>rows = 1, cols = 1, data = [Num 1]\<rparr> (\<lambda>x i. dfn relu x))
    = \<lparr>rows = 1, cols = 1, data = [Num (1 / 2)]\<rparr>"
  by (simp add: transpose_val mul_val mul_entry_def hadamard_val map_m_val relu_def
        f64_get_def zero_jsnum_def upt2)

lemma dw_net2_0: "mul \<lparr>rows = 1, cols = 1, data = [Num (1 / 2)]\<rparr> (transpose_m input2)
    = \<lparr>rows = 1, cols = 2, data = [Num (3 / 2), Num (1 / 2)]\<rparr>"
  by (simp add: transpose_val mul_val mul_entry_def input2_def f64_get_def zero_jsnum_def upt2)

lemma loss_net2:
  "crossEntropyLoss \<lparr>rows = 2, cols = 1, data = [Num (1 / 2), Num (1 / 2)]\<rparr> target2 = Num (ln 2)"
  by (simp add: crossEntropyLoss_def target2_def f64_get_def zero_jsnum_def minus_jsnum_def upt2
        ln_div)

lemma backward_step_net2_1:
  "backward_step net2 [\<lparr>rows = 1, cols = 1, data = [Num 1]\<rparr>, \<lparr>rows = 2, cols = 1, data = [Num 2, Num 2]\<rparr>]
            [input2, \<lparr>rows = 1, cols = 1, data = [Num 1]\<rparr>,
             \<lparr>rows = 2, cols = 1, data = [Num (1 / 2), Num (1 / 2)]\<rparr>] 1
            ([], [], \<lparr>rows = 2, cols = 1, data = [Num (- (1 / 2)), Num (1 / 2)]\<rparr>)
     = Inr ([\<lparr>rows = 2, cols = 1, data = [Num (- (1 / 2)), Num (1 / 2)]\<rparr>],
            [\<lparr>rows = 2, cols = 1, data = [Num (- (1 / 2)), Num (1 / 2)]\<rparr>],
            \<lparr>rows = 1, cols = 1, data = [Num (1 / 2)]\<rparr>)"
  by (simp add: backward_step_def net2_def activations_def nth_1 dw_net2_1 delta_net2_0
        Let_def del: One_nat_def)

lemma backward_step_net2_0:
  "backward_step net2 [\<lparr>rows = 1, cols = 1, data = [Num 1]\<rparr>, \<lparr>rows = 2, cols = 1, data = [Num 2, Num 2]\<rparr>]
            [input2, \<lparr>rows = 1, cols = 1, data = [Num 1]\<rparr>,
             \<lparr>rows = 2, cols = 1, data = [Num (1 / 2), Num (1 / 2)]\<rparr>] 0
            ([\<lparr>rows = 2, cols = 1, data = [Num (- (1 / 2)), Num (1 / 2)]\<rparr>],
             [\<lparr>rows = 2, cols = 1, data = [Num (- (1 / 2)), Num (1 / 2)]\<rparr>],
             \<lparr>rows = 1, cols = 1, data = [Num (1 / 2)]\<rparr>)
     = Inr ([\<lparr>rows = 1, cols = 2, data = [Num (3 / 2), Num (1 / 2)]\<rparr>,
             \<lparr>rows = 2, cols = 1, data = [Num (- (1 / 2)), Num (1 / 2)]\<rparr>],
            [\<lparr>rows = 1, cols = 1, data = [Num (1 / 2)]\<rparr>,
             \<lparr>rows = 2, cols = 1, data = [Num (- (1 / 2)), Num (1 / 2)]\<rparr>],
            \<lparr>rows = 1, cols = 1, data = [Num (1 / 2)]\<rparr>)"
  by (simp add: backward_step_def dw_net2_0 Let_def del: One_nat_def)

lemma backward_net2:
  "backward net2 input2 target2
     = Inr ([\<lparr>rows = 1, cols = 2, data = [Num (3 / 2), Num (1 / 2)]\<rparr>,
             \<lparr>rows = 2, cols = 1, data = [Num (- (1 / 2)), Num (1 / 2)]\<rparr>],
            [\<lparr>rows = 1, cols = 1, data = [Num (1 / 2)]\<rparr>,
             \<lparr>rows = 2, cols = 1, data = [Num (- (1 / 2)), Num (1 / 2)]\<rparr>],
            Num (ln 2))"
  unfolding backward_def forward_net2
  by (simp add: net2_length upt2 nth_2 delta_net2 loss_net2 backward_step_net2_1
        backward_step_net2_0 Let_def del: One_nat_def)

lemma net2_wf: "wf_net net2"
  by (auto simp: wf_net_def net2_def wf_matrix_def col_vec_def less_Suc_eq eval_nat_numeral)

lemma net2_act: "activations (hiddenActivation net2) = Some relu"
  by (simp add: net2_def activations_def)

lemma input2_col: "col_vec (layerSizes net2 ! 0) input2"
  by (simp add: net2_def input2_def col_vec_def)

lemma target2_col: "col_vec (layerSizes net2 ! length (weights net2)) target2"
  by (simp add: net2_def target2_def col_vec_def eval_nat_numeral)

text \<open>
  Claim C1. On a network with \<open>L\<close> transition layers whose weights and biases have the
  shapes of its layer sizes \<open>n\<^sub>0, \<dots>, n\<^sub>L\<close>, with a registered activation, an input
  column of \<open>n\<^sub>0\<close> entries and a target column of \<open>n\<^sub>L\<close> entries, the backward pass
  runs the forward pass, which gives \<open>zs\<close> and \<open>as\<close>, and returns \<^verbatim>\<open>dw\<close>,
  \<^verbatim>\<open>db\<close> and the loss such that, with \<open>\<delta> i\<close> the delta in effect at layer \<open>i\<close>
  (a column of \<open>n\<^bsub>i+1\<^esub>\<close> entries):
  entry \<open>r\<close> of the last delta is \<open>a\<^sub>L[r] - target[r]\<close>;
  for \<open>0 < i < L\<close>, entry \<open>r\<close> of the delta at \<open>i - 1\<close> is
  \<open>(\<Sum>k. W\<^sub>i[k, r] \<cdot> \<delta>\<^sub>i[k]) \<cdot> derivative(z\<^bsub>i-1\<^esub>[r])\<close>;
  \<open>dw\<^sub>i\<close> has shape \<open>n\<^bsub>i+1\<^esub> \<times> n\<^sub>i\<close> and entry \<open>(r, c)\<close> equal to
  \<open>\<delta>\<^sub>i[r] \<cdot> a\<^sub>i[c]\<close>, and \<open>db\<^sub>i\<close> is \<open>\<delta>\<^sub>i\<close>;
  and the loss is the sum, over the rows \<open>r\<close> with \<open>target[r] > 0\<close>, of
  \<open>- target[r] \<cdot> ln (max (a\<^sub>L[r], 10\<^sup>-\<^sup>1\<^sup>5))\<close>.
\<close>

theorem backward_gradients:
  assumes "wf_net net"
    and "activations (hiddenActivation net) = Some act"
    and "col_vec (layerSizes net ! 0) input"
    and "col_vec (layerSizes net ! length (weights net)) target"
  shows "\<exists>zs as dw db \<delta>.
           forward net input = Inr (zs, as)
         \<and> backward net input target
             = Inr (dw, db,
                    fold (\<lambda>r l. if js_gt (data target ! r) 0
                                 then l - data target ! r
                                            * js_log (js_max (data (as ! length (weights net)) ! r)
                                                             (Num (1 / 10 ^ 15)))
                                 else l)
                         [0..<layerSizes net ! length (weights net)] 0)
         \<and> length dw = length (weights net) \<and> length db = length (weights net)
         \<and> (\<forall>r<layerSizes net ! length (weights net).
               data (\<delta> (length (weights net) - 1)) ! r
                 = data (as ! length (weights net)) ! r - data target ! r)
         \<and> (\<forall>i. 0 < i \<and> i < length (weights net) \<longrightarrow>
               (\<forall>r<layerSizes net ! i.
                  data (\<delta> (i - 1)) ! r
                    = (\<Sum>k<layerSizes net ! (i + 1).
                         data (weights net ! i) ! (k * layerSizes net ! i + r) * data (\<delta> i) ! k)
                      * dfn act (data (zs ! (i - 1)) ! r)))
         \<and> (\<forall>i<length (weights net).
               col_vec (layerSizes net ! (i + 1)) (\<delta> i)
             \<and> rows (dw ! i) = layerSizes net ! (i + 1)
             \<and> cols (dw ! i) = layerSizes net ! i
             \<and> length (data (dw ! i)) = layerSizes net ! (i + 1) * layerSizes net ! i
             \<and> (\<forall>r<layerSizes net ! (i + 1). \<forall>c<layerSizes net ! i.
                   data (dw ! i) ! (r * layerSizes net ! i + c)
                     = data (\<delta> i) ! r * data (as ! i) ! c)
             \<and> db ! i = \<delta> i)"
proof -
  let ?L = "length (weights net)"
  let ?n = "\<lambda>i. layerSizes net ! i"
  from forward_shape [OF assms(1-3)] obtain zs as where
    fw: "forward net input = Inr (zs, as)"
    and zsh: "\<forall>i<?L. col_vec (?n (i + 1)) (zs ! i)"
    and ash: "\<forall>i\<le>?L. col_vec (?n i) (as ! i)"
    by blast
  from assms(4) have tg: "rows target = ?n ?L" "length (data target) = ?n ?L"
    by (simp_all add: col_vec_def)
  from ash have aL: "col_vec (?n ?L) (as ! ?L)" by simp
  define d0 where "d0 = sub (as ! ?L) target"
  define \<delta> where "\<delta> i = fold (propagate net act zs) (rev [Suc i..<?L]) d0" for i
  define dw where "dw = map (\<lambda>i. mul (\<delta> i) (transpose_m (as ! i))) [0..<?L]"
  define db where "db = map \<delta> [0..<?L]"
  have ce: "crossEntropyLoss (as ! ?L) target
      = fold (\<lambda>r l. if js_gt (data target ! r) 0
                     then l - data target ! r
                                * js_log (js_max (data (as ! ?L) ! r) (Num (1 / 10 ^ 15)))
                     else l) [0..<?n ?L] 0"
    using tg aL by (intro crossEntropyLoss_entries) (simp_all add: col_vec_def)
  have bw: "backward net input target
      = Inr (dw, db, fold (\<lambda>r l. if js_gt (data target ! r) 0
                     then l - data target ! r
                                * js_log (js_max (data (as ! ?L) ! r) (Num (1 / 10 ^ 15)))
                     else l) [0..<?n ?L] 0)"
    unfolding ce [symmetric]
    by (simp add: backward_def fw Let_def backward_loop [OF assms(2)] dw_def db_def \<delta>_def d0_def)
  have top: "\<delta> (?L - 1) = sub (as ! ?L) target"
    by (simp add: \<delta>_def d0_def)
  have rec: "\<delta> (i - 1) = hadamard (mul (transpose_m (weights net ! i)) (\<delta> i))
                                     (map_m (zs ! (i - 1)) (\<lambda>x k. dfn act x))"
    if "0 < i" "i < ?L" for i
  proof -
    from that have "[Suc (i - 1)..<?L] = i # [Suc i..<?L]"
      by (simp add: upt_conv_Cons)
    then have "\<delta> (i - 1) = propagate net act zs i (\<delta> i)"
      by (simp add: \<delta>_def)
    then show ?thesis by (simp add: propagate_def)
  qed
  have W: "wf_matrix (weights net ! i)" "rows (weights net ! i) = ?n (i + 1)"
      "cols (weights net ! i) = ?n i" if "i < ?L" for i
    using assms(1) that by (simp_all add: wf_net_def)
  have dsh: "col_vec (?n (i + 1)) (\<delta> i)" if "i < ?L" for i
    using that
  proof (induction "?L - Suc i" arbitrary: i)
    case 0
    then have s: "Suc i = ?L" by simp
    then have "\<delta> i = d0" by (simp add: \<delta>_def)
    with aL s show ?case
      by (simp add: d0_def sub_col_vec)
  next
    case (Suc m)
    then have lt: "Suc i < ?L" and m: "m = ?L - Suc (Suc i)" by simp_all
    from Suc.hyps(1) [OF m lt] have c: "cols (\<delta> (Suc i)) = 1"
      by (simp add: col_vec_def)
    from rec [of "Suc i"] lt have "\<delta> i = hadamard (mul (transpose_m (weights net ! Suc i)) (\<delta> (Suc i)))
                                     (map_m (zs ! i) (\<lambda>x k. dfn act x))"
      by simp
    moreover have "cols (weights net ! Suc i) = ?n (Suc i)"
      using W(3) [OF lt] .
    ultimately show ?case
      using propagate_shape [OF _ c] by simp
  qed
  have e1: "data (\<delta> (?L - 1)) ! r = data (as ! ?L) ! r - data target ! r" if "r < ?n ?L" for r
    unfolding top using aL tg(2) that by (rule sub_entry)
  have e2: "data (\<delta> (i - 1)) ! r
        = (\<Sum>k<?n (i + 1). data (weights net ! i) ! (k * ?n i + r) * data (\<delta> i) ! k)
          * dfn act (data (zs ! (i - 1)) ! r)"
    if "0 < i" "i < ?L" "r < ?n i" for i r
  proof -
    from that zsh have z: "col_vec (?n i) (zs ! (i - 1))"
      by (metis Suc_pred' add.commute less_imp_diff_less plus_1_eq_Suc)
    show ?thesis
      unfolding rec [OF that(1,2)]
      using W(1,2,3) [OF that(2)] dsh [OF that(2)] z that(3)
      by (rule propagate_entry)
  qed
  have e3: "col_vec (?n (i + 1)) (\<delta> i)
             \<and> rows (dw ! i) = ?n (i + 1) \<and> cols (dw ! i) = ?n i
             \<and> length (data (dw ! i)) = ?n (i + 1) * ?n i
             \<and> (\<forall>r<?n (i + 1). \<forall>c<?n i.
                   data (dw ! i) ! (r * ?n i + c) = data (\<delta> i) ! r * data (as ! i) ! c)
             \<and> db ! i = \<delta> i"
    if "i < ?L" for i
  proof -
    from that ash have a: "col_vec (?n i) (as ! i)" by simp
    from that have dwi: "dw ! i = mul (\<delta> i) (transpose_m (as ! i))" and dbi: "db ! i = \<delta> i"
      by (simp_all add: dw_def db_def)
    show ?thesis
      unfolding dwi dbi
      using outer_product [OF dsh [OF that] a] outer_product_shape [OF dsh [OF that] a] dsh [OF that]
      by simp
  qed
  have len: "length dw = ?L" "length db = ?L"
    by (simp_all add: dw_def db_def)
  show ?thesis
    using fw bw e1 e2 e3 len
    by (intro exI [of _ zs] exI [of _ as] exI [of _ dw] exI [of _ db] exI [of _ \<delta>]) simp
qed

theorem backward_gradients_witness:
  "wf_net net2 \<and> activations (hiddenActivation net2) = Some relu
   \<and> col_vec (layerSizes net2 ! 0) input2
   \<and> col_vec (layerSizes net2 ! length (weights net2)) target2
   \<and> (\<exists>dw db l. backward net2 input2 target2 = Inr (dw, db, l)
         \<and> data (db ! 1) ! 0 = Num (- (1 / 2)) \<and> data (db ! 1) ! 1 = Num (1 / 2)
         \<and> data (db ! 0) ! 0 = Num (1 / 2)
         \<and> data (dw ! 1) ! 0 = Num (- (1 / 2)) \<and> data (dw ! 1) ! 1 = Num (1 / 2)
         \<and> rows (dw ! 0) = 1 \<and> cols (dw ! 0) = 2
         \<and> data (dw ! 0) ! 0 = Num (3 / 2) \<and> data (dw ! 0) ! 1 = Num (1 / 2))"
proof -
  let ?L = "length (weights net2)"
  let ?n = "\<lambda>i. layerSizes net2 ! i"
  from backward_gradients [OF net2_wf net2_act input2_col target2_col]
  obtain zs as dw db \<delta> where
    fw: "forward net2 input2 = Inr (zs, as)"
    and bw: "backward net2 input2 target2
             = Inr (dw, db,
                    fold (\<lambda>r l. if js_gt (data target2 ! r) 0
                                 then l - data target2 ! r
                                            * js_log (js_max (data (as ! ?L) ! r) (Num (1 / 10 ^ 15)))
                                 else l)
                         [0..<?n ?L] 0)"
    and len: "length dw = ?L" "length db = ?L"
    and e1: "\<forall>r<?n ?L. data (\<delta> (?L - 1)) ! r = data (as ! ?L) ! r - data target2 ! r"
    and e2: "\<forall>i. 0 < i \<and> i < ?L \<longrightarrow>
               (\<forall>r<?n i. data (\<delta> (i - 1)) ! r
                    = (\<Sum>k<?n (i + 1). data (weights net2 ! i) ! (k * ?n i + r) * data (\<delta> i) ! k)
                      * dfn relu (data (zs ! (i - 1)) ! r))"
    and e3: "\<forall>i<?L. col_vec (?n (i + 1)) (\<delta> i)
             \<and> rows (dw ! i) = ?n (i + 1) \<and> cols (dw ! i) = ?n i
             \<and> length (data (dw ! i)) = ?n (i + 1) * ?n i
             \<and> (\<forall>r<?n (i + 1). \<forall>c<?n i.
                   data (dw ! i) ! (r * ?n i + c) = data (\<delta> i) ! r * data (as ! i) ! c)
             \<and> db ! i = \<delta> i"
    by (elim exE conjE) (rule that; assumption)
  have L: "?L = 2" and ls: "layerSizes net2 = [2, 1, 2]"
    and W1: "weights net2 ! Suc 0 = \<lparr>rows = 2, cols = 1, data = [Num 1, Num 2]\<rparr>"
    by (simp_all add: net2_def)
  from fw have zs: "zs = [\<lparr>rows = 1, cols = 1, data = [Num 1]\<rparr>, \<lparr>rows = 2, cols = 1, data = [Num 2, Num 2]\<rparr>]"
    and as: "as = [input2, \<lparr>rows = 1, cols = 1, data = [Num 1]\<rparr>,
             \<lparr>rows = 2, cols = 1, data = [Num (1 / 2), Num (1 / 2)]\<rparr>]"
    by (simp_all add: forward_net2)
  have d10: "data (\<delta> 1) ! 0 = Num (- (1 / 2))"
    using e1 [rule_format, of 0] by (simp add: L ls as target2_def minus_jsnum_def nth_2)
  have d11: "data (\<delta> 1) ! 1 = Num (1 / 2)"
    using e1 [rule_format, of 1] by (simp add: L ls as target2_def minus_jsnum_def nth_2)
  have d00: "data (\<delta> 0) ! 0 = Num (1 / 2)"
    using e2 [rule_format, of 1 0] d10 d11
    by (simp add: L ls zs W1 relu_def lessThan_Suc eval_nat_numeral zero_jsnum_def)
  from e3 [rule_format, of 1] have db1: "db ! 1 = \<delta> 1"
    and dw1: "\<forall>r<2. \<forall>c<1. data (dw ! 1) ! (r * 1 + c) = data (\<delta> 1) ! r * data (as ! 1) ! c"
    by (simp_all add: L ls nth_2)
  from e3 [rule_format, of 0] have db0: "db ! 0 = \<delta> 0"
    and sh0: "rows (dw ! 0) = 1" "cols (dw ! 0) = 2"
    and dw0: "\<forall>r<1. \<forall>c<2. data (dw ! 0) ! (r * 2 + c) = data (\<delta> 0) ! r * data (as ! 0) ! c"
    by (simp_all add: L ls)
  from dw1 [rule_format, of 0 0] dw1 [rule_format, of 1 0] d10 d11
  have w1: "data (dw ! 1) ! 0 = Num (- (1 / 2))" "data (dw ! 1) ! 1 = Num (1 / 2)"
    by (simp_all add: as)
  from dw0 [rule_format, of 0 0] dw0 [rule_format, of 0 1] d00
  have w0: "data (dw ! 0) ! 0 = Num (3 / 2)" "data (dw ! 0) ! 1 = Num (1 / 2)"
    by (simp_all add: as input2_def)
  have "\<exists>dw db l. backward net2 input2 target2 = Inr (dw, db, l)
         \<and> data (db ! 1) ! 0 = Num (- (1 / 2)) \<and> data (db ! 1) ! 1 = Num (1 / 2)
         \<and> data (db ! 0) ! 0 = Num (1 / 2)
         \<and> data (dw ! 1) ! 0 = Num (- (1 / 2)) \<and> data (dw ! 1) ! 1 = Num (1 / 2)
         \<and> rows (dw ! 0) = 1 \<and> cols (dw ! 0) = 2
         \<and> data (dw ! 0) ! 0 = Num (3 / 2) \<and> data (dw ! 0) ! 1 = Num (1 / 2)"
    using bw db1 db0 d10 d11 d00 w1 w0 sh0
    by (intro exI [of _ dw] exI [of _ db] exI) simp
  with net2_wf net2_act input2_col target2_col show ?thesis
    by (intro conjI)
qed

section \<open>The constructor\<close>

lemma xavier_loop:
  "n' \<le> n \<Longrightarrow>
   fold (\<lambda>i (d, k). (f64_set d i (g k), Suc k)) [0..<n'] (replicate n 0, k0)
     = (map (\<lambda>j. if j < n' then g (k0 + j) else 0) [0..<n], k0 + n')"
proof (induction n')
  case 0
  then show ?case by (simp add: map_replicate_const)
next
  case (Suc n')
  then have lt: "n' < n" by simp
  have "f64_set (map (\<lambda>j. if j < n' then g (k0 + j) else 0) [0..<n]) n' (g (k0 + n'))
      = map (\<lambda>j. if j < Suc n' then g (k0 + j) else 0) [0..<n]"
    using lt by (intro nth_equalityI) (auto simp: f64_set_nth less_Suc_eq)
  with Suc lt show ?case
    by simp
qed

lemma xavierInit_eq:
  "xavierInit r c rnd k =
     (\<lparr>rows = r, cols = c,
       data = map (\<lambda>j. (Num (random rnd (k + j)) * Num 2 - Num 1)
                          * js_sqrt (js_div (Num 6) (Num (real (r + c))))) [0..<r * c]\<rparr>,
      k + r * c)"
  by (simp add: xavierInit_def Let_def xavier_loop)

lemma Network_loop:
  "fold (\<lambda>i (ws, bs, k).
            let (w, k') = xavierInit (ls ! (i + 1)) (ls ! i) rnd k
            in (ws @ [w], bs @ [zeros (ls ! (i + 1)) 1], k'))
        [0..<m] ([], [], k)
   = (map (\<lambda>i. fst (xavierInit (ls ! (i + 1)) (ls ! i) rnd (k + offset ls i))) [0..<m],
      map (\<lambda>i. zeros (ls ! (i + 1)) 1) [0..<m],
      k + offset ls m)"
  by (induction m) (simp_all add: offset_def xavierInit_eq)

lemma Network_fields:
  "layerSizes (fst (Network ls act rnd k)) = ls"
  "hiddenActivation (fst (Network ls act rnd k)) = (case act of None \<Rightarrow> ''relu'' | Some a \<Rightarrow> a)"
  unfolding Network_def Network_loop by simp_all

lemma xavier_entry:
  assumes "j < r * c"
  shows "data (fst (xavierInit r c rnd k)) ! j
           = Num ((2 * random rnd (k + j) - 1) * sqrt (6 / real (r + c)))
         \<and> \<bar>(2 * random rnd (k + j) - 1) * sqrt (6 / real (r + c))\<bar> \<le> sqrt (6 / real (r + c))"
proof -
  from assms have "0 < r + c" by (cases r; cases c) simp_all
  then have "real (r + c) \<noteq> 0" by linarith
  then have d: "js_sqrt (js_div (Num 6) (Num (real (r + c)))) = Num (sqrt (6 / real (r + c)))"
    by (simp del: of_nat_add)
  have u: "0 \<le> random rnd (k + j)" "random rnd (k + j) < 1"
    by (simp_all add: random_def frac_lt_1)
  then have "\<bar>2 * random rnd (k + j) - 1\<bar> \<le> 1" by (simp add: abs_le_iff)
  then have "\<bar>(2 * random rnd (k + j) - 1) * sqrt (6 / real (r + c))\<bar> \<le> 1 * sqrt (6 / real (r + c))"
    unfolding abs_mult by (intro mult_mono) simp_all
  then have b: "\<bar>(2 * random rnd (k + j) - 1) * sqrt (6 / real (r + c))\<bar>
       \<le> sqrt (6 / real (r + c))"
    by simp
  have "data (fst (xavierInit r c rnd k)) ! j
      = (Num (random rnd (k + j)) * Num 2 - Num 1)
          * js_sqrt (js_div (Num 6) (Num (real (r + c))))"
    using assms unfolding xavierInit_eq by (simp del: js_sqrt.simps js_div.simps of_nat_add)
  also have "\<dots> = Num ((2 * random rnd (k + j) - 1) * sqrt (6 / real (r + c)))"
    unfolding d by (simp add: minus_jsnum_def mult.commute)
  finally show ?thesis
    using b by blast
qed


section \<open>Training\<close>

lemma backward_ok:
  assumes "net_ok net"
  shows "\<exists>dw db l. backward net input target = Inr (dw, db, l)
           \<and> length dw = length (weights net) \<and> length db = length (weights net)"
proof -
  from assms obtain act where a: "activations (hiddenActivation net) = Some act"
    and b: "length (biases net) = length (weights net)"
    by (auto simp: net_ok_def)
  from forward_ok [OF b a] obtain zs as where fw: "forward net input = Inr (zs, as)"
    by blast
  show ?thesis
    by (simp add: backward_def fw Let_def backward_loop [OF a])
qed

lemma predict_ok:
  assumes "net_ok net"
  shows "\<exists>p. predict net input = Inr p"
proof -
  from assms obtain act where a: "activations (hiddenActivation net) = Some act"
    and b: "length (biases net) = length (weights net)"
    by (auto simp: net_ok_def)
  from forward_ok [OF b a] obtain zs as where fw: "forward net input = Inr (zs, as)"
    by blast
  show ?thesis
    by (simp add: predict_def fw)
qed

lemma accumulate_loop:
  assumes "length accDw = L" "length accDb = L" "n \<le> L"
  shows "fold (\<lambda>i acc. case acc of Inl e \<Rightarrow> Inl e | Inr a \<Rightarrow> accumulate_step dw db i a)
              [0..<n] (Inr (accDw, accDb))
         = Inr (map (\<lambda>i. if i < n then add (accDw ! i) (dw ! i) else accDw ! i) [0..<L],
                map (\<lambda>i. if i < n then add (accDb ! i) (db ! i) else accDb ! i) [0..<L])"
  using assms(3)
proof (induction n)
  case 0
  then show ?case
    using assms(1,2) map_nth [of accDw] map_nth [of accDb] by simp
next
  case (Suc n)
  then have lt: "n < L" by simp
  have u1: "(map (\<lambda>i. if i < n then add (accDw ! i) (dw ! i) else accDw ! i) [0..<L])
              [n := add (accDw ! n) (dw ! n)]
        = map (\<lambda>i. if i < Suc n then add (accDw ! i) (dw ! i) else accDw ! i) [0..<L]"
    using lt by (intro nth_equalityI) (auto simp: nth_list_update less_Suc_eq)
  have u2: "(map (\<lambda>i. if i < n then add (accDb ! i) (db ! i) else accDb ! i) [0..<L])
              [n := add (accDb ! n) (db ! n)]
        = map (\<lambda>i. if i < Suc n then add (accDb ! i) (db ! i) else accDb ! i) [0..<L]"
    using lt by (intro nth_equalityI) (auto simp: nth_list_update less_Suc_eq)
  from Suc lt show ?case
    by (simp add: accumulate_step_def u1 u2)
qed

lemma train_sample_ok:
  assumes "net_ok net" "idx < length samples"
    "length accDw = length (weights net)" "length accDb = length (weights net)"
  shows "\<exists>dw db l c'. backward net (fst (samples ! idx)) (snd (samples ! idx)) = Inr (dw, db, l)
           \<and> train_sample net samples idx (accDw, accDb, tot, c)
             = Inr (map (\<lambda>i. add (accDw ! i) (dw ! i)) [0..<length (weights net)],
                    map (\<lambda>i. add (accDb ! i) (db ! i)) [0..<length (weights net)],
                    tot + l, c')"
proof -
  obtain input target where s: "samples ! idx = (input, target)"
    by (cases "samples ! idx")
  from backward_ok [OF assms(1)] obtain dw db l where
    bw: "backward net input target = Inr (dw, db, l)"
    and len: "length dw = length (weights net)" "length db = length (weights net)"
    by blast
  from predict_ok [OF assms(1)] obtain p where p: "predict net input = Inr p"
    by blast
  have acc: "fold (\<lambda>i acc. case acc of Inl e \<Rightarrow> Inl e | Inr a \<Rightarrow> accumulate_step dw db i a)
              [0..<length dw] (Inr (accDw, accDb))
         = Inr (map (\<lambda>i. add (accDw ! i) (dw ! i)) [0..<length (weights net)],
                map (\<lambda>i. add (accDb ! i) (db ! i)) [0..<length (weights net)])"
    using accumulate_loop [OF assms(3,4), of "length (weights net)" dw db]
    by (simp add: len cong: map_cong)
  show ?thesis
    using assms(2)
    by (simp add: train_sample_def nth_opt_def s bw p acc Let_def split: prod.splits)
qed

lemma accumulate_fold:
  assumes "net_ok net" "\<forall>idx\<in>set batch. idx < length samples"
    "length accDw = length (weights net)" "length accDb = length (weights net)"
  shows "\<exists>tot' c'.
      fold (\<lambda>idx acc. case acc of Inl e \<Rightarrow> Inl e | Inr a \<Rightarrow> train_sample net samples idx a)
           batch (Inr (accDw, accDb, tot, c))
      = Inr (map (\<lambda>i. fold (\<lambda>idx a. add a (sample_dw net samples idx ! i)) batch (accDw ! i))
                 [0..<length (weights net)],
             map (\<lambda>i. fold (\<lambda>idx a. add a (sample_db net samples idx ! i)) batch (accDb ! i))
                 [0..<length (weights net)],
             tot', c')"
  using assms(2-4)
proof (induction batch arbitrary: accDw accDb tot c)
  case Nil
  then show ?case
    using map_nth [of accDw] map_nth [of accDb] by simp
next
  case (Cons idx batch)
  let ?L = "length (weights net)"
  from Cons.prems have idx: "idx < length samples" by simp
  from train_sample_ok [OF assms(1) idx Cons.prems(2,3), of tot c]
  obtain dw db l c' where
    bw: "backward net (fst (samples ! idx)) (snd (samples ! idx)) = Inr (dw, db, l)"
    and ts: "train_sample net samples idx (accDw, accDb, tot, c)
             = Inr (map (\<lambda>i. add (accDw ! i) (dw ! i)) [0..<?L],
                    map (\<lambda>i. add (accDb ! i) (db ! i)) [0..<?L], tot + l, c')"
    by blast
  have g: "sample_dw net samples idx = dw" "sample_db net samples idx = db"
    by (simp_all add: sample_dw_def sample_db_def bw)
  from Cons.prems have rest: "\<forall>idx\<in>set batch. idx < length samples" by simp
  from Cons.IH [OF rest, of "map (\<lambda>i. add (accDw ! i) (dw ! i)) [0..<?L]"
                           "map (\<lambda>i. add (accDb ! i) (db ! i)) [0..<?L]" "tot + l" c']
  obtain tot' c'' where
    "fold (\<lambda>idx acc. case acc of Inl e \<Rightarrow> Inl e | Inr a \<Rightarrow> train_sample net samples idx a)
           batch (Inr (map (\<lambda>i. add (accDw ! i) (dw ! i)) [0..<?L],
                       map (\<lambda>i. add (accDb ! i) (db ! i)) [0..<?L], tot + l, c'))
      = Inr (map (\<lambda>i. fold (\<lambda>idx a. add a (sample_dw net samples idx ! i)) batch
                          (map (\<lambda>i. add (accDw ! i) (dw ! i)) [0..<?L] ! i)) [0..<?L],
             map (\<lambda>i. fold (\<lambda>idx a. add a (sample_db net samples idx ! i)) batch
                          (map (\<lambda>i. add (accDb ! i) (db ! i)) [0..<?L] ! i)) [0..<?L],
             tot', c'')"
    by auto
  then show ?case
    by (simp add: ts g cong: map_cong)
qed

lemma accumulate_batch_ok:
  assumes "net_ok net" "\<forall>idx\<in>set batch. idx < length samples"
  shows "\<exists>tot' c'.
      accumulate_batch net samples batch (tot, c)
      = Inr (map (\<lambda>i. fold (\<lambda>idx a. add a (sample_dw net samples idx ! i)) batch
                          (zeros (rows (weights net ! i)) (cols (weights net ! i))))
                 [0..<length (weights net)],
             map (\<lambda>i. fold (\<lambda>idx a. add a (sample_db net samples idx ! i)) batch
                          (zeros (rows (biases net ! i)) (cols (biases net ! i))))
                 [0..<length (weights net)],
             tot', c')"
proof -
  let ?aw = "map (\<lambda>w. zeros (rows w) (cols w)) (weights net)"
  let ?ab = "map (\<lambda>b. zeros (rows b) (cols b)) (biases net)"
  from assms(1) have lb: "length (biases net) = length (weights net)"
    by (simp add: net_ok_def)
  have "length ?aw = length (weights net)" "length ?ab = length (weights net)"
    by (simp_all add: lb)
  from accumulate_fold [OF assms this, of tot c] obtain tot' c' where
    f: "fold (\<lambda>idx acc. case acc of Inl e \<Rightarrow> Inl e | Inr a \<Rightarrow> train_sample net samples idx a)
           batch (Inr (?aw, ?ab, tot, c))
      = Inr (map (\<lambda>i. fold (\<lambda>idx a. add a (sample_dw net samples idx ! i)) batch (?aw ! i))
                 [0..<length (weights net)],
             map (\<lambda>i. fold (\<lambda>idx a. add a (sample_db net samples idx ! i)) batch (?ab ! i))
                 [0..<length (weights net)],
             tot', c')"
    by blast
  have e1: "map (\<lambda>i. fold (\<lambda>idx a. add a (sample_dw net samples idx ! i)) batch (?aw ! i))
                 [0..<length (weights net)]
      = map (\<lambda>i. fold (\<lambda>idx a. add a (sample_dw net samples idx ! i)) batch
                          (zeros (rows (weights net ! i)) (cols (weights net ! i))))
                 [0..<length (weights net)]"
    by (rule map_cong) simp_all
  have e2: "map (\<lambda>i. fold (\<lambda>idx a. add a (sample_db net samples idx ! i)) batch (?ab ! i))
                 [0..<length (weights net)]
      = map (\<lambda>i. fold (\<lambda>idx a. add a (sample_db net samples idx ! i)) batch
                          (zeros (rows (biases net ! i)) (cols (biases net ! i))))
                 [0..<length (weights net)]"
    by (rule map_cong) (simp_all add: lb)
  show ?thesis
    unfolding accumulate_batch_def using f unfolding e1 e2 by simp
qed

lemma update_loop:
  assumes "length accDw = length (weights net)" "length accDb = length (weights net)"
    "length (biases net) = length (weights net)" "n \<le> length (weights net)"
  shows "fold (\<lambda>i n. case n of Inl e \<Rightarrow> Inl e | Inr n' \<Rightarrow> update_step accDw accDb s i n')
              [0..<n] (Inr net)
         = Inr (net\<lparr>weights := map (\<lambda>i. if i < n then sub (weights net ! i) (scale (accDw ! i) s)
                                         else weights net ! i) [0..<length (weights net)],
                     biases := map (\<lambda>i. if i < n then sub (biases net ! i) (scale (accDb ! i) s)
                                        else biases net ! i) [0..<length (weights net)]\<rparr>)"
  using assms(4)
proof (induction n)
  case 0
  then show ?case
    using map_nth [of "weights net"] map_nth [of "biases net"] assms(3) by simp
next
  case (Suc n)
  let ?L = "length (weights net)"
  from Suc have lt: "n < ?L" by simp
  have u1: "(map (\<lambda>i. if i < n then sub (weights net ! i) (scale (accDw ! i) s)
                       else weights net ! i) [0..<?L])
              [n := sub (weights net ! n) (scale (accDw ! n) s)]
        = map (\<lambda>i. if i < Suc n then sub (weights net ! i) (scale (accDw ! i) s)
                       else weights net ! i) [0..<?L]"
    using lt by (intro nth_equalityI) (auto simp: nth_list_update less_Suc_eq)
  have u2: "(map (\<lambda>i. if i < n then sub (biases net ! i) (scale (accDb ! i) s)
                       else biases net ! i) [0..<?L])
              [n := sub (biases net ! n) (scale (accDb ! n) s)]
        = map (\<lambda>i. if i < Suc n then sub (biases net ! i) (scale (accDb ! i) s)
                       else biases net ! i) [0..<?L]"
    using lt by (intro nth_equalityI) (auto simp: nth_list_update less_Suc_eq)
  from Suc lt show ?case
    by (simp add: update_step_def assms(1,2) u1 u2 Let_def)
qed

lemma updated_ok: "net_ok net \<Longrightarrow> net_ok (updated net accDw accDb s)"
  by (simp add: net_ok_def updated_def)

lemma train_batch_ok:
  assumes "net_ok net" "\<forall>idx\<in>set batch. idx < length samples"
  shows "\<exists>accDw accDb tot' c'.
      accumulate_batch net samples batch (tot, c) = Inr (accDw, accDb, tot', c')
    \<and> accDw = map (\<lambda>i. fold (\<lambda>idx a. add a (sample_dw net samples idx ! i)) batch
                          (zeros (rows (weights net ! i)) (cols (weights net ! i))))
                 [0..<length (weights net)]
    \<and> accDb = map (\<lambda>i. fold (\<lambda>idx a. add a (sample_db net samples idx ! i)) batch
                          (zeros (rows (biases net ! i)) (cols (biases net ! i))))
                 [0..<length (weights net)]
    \<and> train_batch samples batch rate (net, tot, c)
        = Inr (updated net accDw accDb (js_div rate (Num (real (length batch)))), tot', c')"
proof -
  from accumulate_batch_ok [OF assms, of tot c] obtain accDw accDb tot' c' where
    acc: "accumulate_batch net samples batch (tot, c) = Inr (accDw, accDb, tot', c')"
    and dw: "accDw = map (\<lambda>i. fold (\<lambda>idx a. add a (sample_dw net samples idx ! i)) batch
                          (zeros (rows (weights net ! i)) (cols (weights net ! i))))
                 [0..<length (weights net)]"
    and db: "accDb = map (\<lambda>i. fold (\<lambda>idx a. add a (sample_db net samples idx ! i)) batch
                          (zeros (rows (biases net ! i)) (cols (biases net ! i))))
                 [0..<length (weights net)]"
    by blast
  have l1: "length accDw = length (weights net)" and l2: "length accDb = length (weights net)"
    by (simp_all add: dw db)
  from assms(1) have lb: "length (biases net) = length (weights net)"
    by (simp add: net_ok_def)
  have "train_batch samples batch rate (net, tot, c)
        = Inr (updated net accDw accDb (js_div rate (Num (real (length batch)))), tot', c')"
    using update_loop [OF l1 l2 lb, of "length (weights net)"]
    by (simp add: train_batch_def acc Let_def updated_def cong: map_cong)
  with acc dw db show ?thesis by blast
qed

lemma train_batches_done:
  "length indices \<le> b \<Longrightarrow> train_batches samples indices bsz rate b st = Some (Inr st)"
  by (subst train_batches.simps) simp

lemma train_batches_step:
  "b < length indices \<Longrightarrow>
   train_batches samples indices bsz rate b st
     = (case train_batch samples (take bsz (drop b indices)) rate st of
          Inl e \<Rightarrow> Some (Inl e)
        | Inr st' \<Rightarrow> train_batches samples indices bsz rate (b + bsz) st')"
  by (subst train_batches.simps) simp

lemma train_batches_ok:
  assumes "0 < bsz" "\<forall>idx\<in>set indices. idx < length samples"
  shows "net_ok net \<Longrightarrow>
         \<exists>net' tot' c'. train_batches samples indices bsz rate b (net, tot, c)
                           = Some (Inr (net', tot', c')) \<and> net_ok net'"
proof (induction "length indices - b" arbitrary: b net tot c rule: less_induct)
  case less
  show ?case
  proof (cases "b < length indices")
    case False
    then show ?thesis
      using less.prems by (simp add: train_batches_done)
  next
    case True
    have "\<forall>idx\<in>set (take bsz (drop b indices)). idx < length samples"
      using assms(2) by (meson in_set_dropD in_set_takeD)
    from train_batch_ok [OF less.prems this, of tot c rate]
    obtain accDw accDb tot' c' where
      tb: "train_batch samples (take bsz (drop b indices)) rate (net, tot, c)
        = Inr (updated net accDw accDb
                 (js_div rate (Num (real (length (take bsz (drop b indices)))))), tot', c')"
      by blast
    let ?net' = "updated net accDw accDb
                 (js_div rate (Num (real (length (take bsz (drop b indices))))))"
    have ok: "net_ok ?net'" using less.prems by (rule updated_ok)
    have "length indices - (b + bsz) < length indices - b"
      using True assms(1) by simp
    from less.hyps [OF this ok, of tot' c'] show ?thesis
      by (simp add: train_batches_step [OF True] tb)
  qed
qed

lemma train_batches_diverges:
  assumes "train_batches samples indices bsz rate b st = Some r"
  shows "\<not> (bsz = 0 \<and> b < length indices
            \<and> length (biases (fst st)) = length (weights (fst st)))"
proof (rule train_batches.raw_induct
    [where P = "\<lambda>samples indices bsz rate b st r.
           \<not> (bsz = 0 \<and> b < length indices
               \<and> length (biases (fst st)) = length (weights (fst st)))", OF _ assms],
    goal_cases)
  case (1 tb samples indices bsz rate b st r)
  show ?case
  proof
    assume a: "bsz = 0 \<and> b < length indices
            \<and> length (biases (fst st)) = length (weights (fst st))"
    obtain net tot c where st: "st = (net, tot, c)" by (cases st)
    from a st have lb: "length (biases net) = length (weights net)" by simp
    have l1: "length (map (\<lambda>w. zeros (rows w) (cols w)) (weights net)) = length (weights net)"
      and l2: "length (map (\<lambda>b. zeros (rows b) (cols b)) (biases net)) = length (weights net)"
      by (simp_all add: lb)
    let ?net' = "updated net (map (\<lambda>w. zeros (rows w) (cols w)) (weights net))
                           (map (\<lambda>b. zeros (rows b) (cols b)) (biases net))
                           (js_div rate (Num 0))"
    have tb: "train_batch samples [] rate (net, tot, c) = Inr (?net', tot, c)"
      using update_loop [OF l1 l2 lb, of "length (weights net)"]
      by (simp add: train_batch_def accumulate_batch_def Let_def updated_def cong: map_cong)
    from 1(2) a st have "tb samples indices bsz rate b (?net', tot, c) = Some r"
      by (simp add: tb)
    from 1(1) [OF this] have
      "\<not> (bsz = 0 \<and> b < length indices
            \<and> length (biases (fst (?net', tot, c))) = length (weights (fst (?net', tot, c))))" .
    with a show False
      by (simp add: updated_def)
  qed
qed

lemma random_index: "nat \<lfloor>random rnd k * real (i + 1)\<rfloor> \<le> i"
proof -
  have "0 \<le> random rnd k" "random rnd k < 1"
    by (simp_all add: random_def frac_lt_1)
  then have "random rnd k * real (i + 1) < 1 * real (i + 1)"
    by (intro mult_strict_right_mono) simp_all
  then have "\<lfloor>random rnd k * real (i + 1)\<rfloor> < int (i + 1)"
    by (simp add: floor_less_iff)
  then show ?thesis by linarith
qed

lemma shuffle_loop:
  "n \<le> length ix \<Longrightarrow>
   mset (fst (fold (\<lambda>i (ix, k). let j = nat \<lfloor>random rnd k * real (i + 1)\<rfloor>
                        in (ix[i := ix ! j, j := ix ! i], Suc k))
          (rev [1..<n]) (ix, k))) = mset ix"
proof (induction n arbitrary: ix k)
  case 0
  then show ?case by simp
next
  case (Suc n)
  show ?case
  proof (cases "1 \<le> n")
    case False
    then show ?thesis by simp
  next
    case True
    let ?j = "nat \<lfloor>random rnd k * real (n + 1)\<rfloor>"
    let ?ix' = "ix[n := ix ! ?j, ?j := ix ! n]"
    have jn: "?j \<le> n" by (rule random_index)
    with Suc.prems have "n < length ix" "?j < length ix" by simp_all
    then have m: "mset ?ix' = mset ix" by (simp add: mset_swap)
    have r: "rev [1..<Suc n] = n # rev [1..<n]" using True by simp
    have "n \<le> length ?ix'" using Suc.prems by simp
    from Suc.IH [OF this, of "Suc k"] m show ?thesis
      unfolding r by (simp add: Let_def)
  qed
qed

lemma shuffle_indices_mset: "mset (fst (shuffle_indices ix rnd k)) = mset ix"
  unfolding shuffle_indices_def by (rule shuffle_loop) simp

lemma epoch_indices:
  "\<exists>indices k'. (if shuffle cfg then shuffle_indices [0..<n] rnd k else ([0..<n], k)) = (indices, k')
      \<and> mset indices = mset [0..<n]"
proof (cases "shuffle cfg")
  case True
  obtain indices k' where s: "shuffle_indices [0..<n] rnd k = (indices, k')"
    by (cases "shuffle_indices [0..<n] rnd k")
  with shuffle_indices_mset [of "[0..<n]" rnd k] True show ?thesis by simp
next
  case False
  then show ?thesis by simp
qed

lemma train_epoch_ok:
  assumes "0 < batchSize cfg" "net_ok net"
  shows "\<exists>net' k' e. train_epoch samples cfg rnd ep (net, k, h) = Some (Inr (net', k', h @ [e]))
            \<and> net_ok net'"
proof -
  from epoch_indices [of cfg "length samples" rnd k] obtain indices k' where
    i: "(if shuffle cfg then shuffle_indices [0..<length samples] rnd k
         else ([0..<length samples], k)) = (indices, k')"
    and m: "mset indices = mset [0..<length samples]"
    by blast
  from m have "set indices = set [0..<length samples]" by (rule mset_eq_setD)
  then have v: "\<forall>idx\<in>set indices. idx < length samples" by simp
  from train_batches_ok [OF assms(1) v assms(2), of "lr cfg" 0 0 0]
  obtain net' tot' c' where
    "train_batches samples indices (batchSize cfg) (lr cfg) 0 (net, 0, 0)
       = Some (Inr (net', tot', c'))" "net_ok net'"
    by blast
  then show ?thesis
    by (simp add: train_epoch_def Let_def i)
qed

lemma train_loop_ok:
  assumes "0 < batchSize cfg" "net_ok net"
  shows "\<exists>net' k' h. fold (\<lambda>ep st. case st of None \<Rightarrow> None | Some (Inl e) \<Rightarrow> Some (Inl e)
                     | Some (Inr s) \<Rightarrow> train_epoch samples cfg rnd ep s)
          [0..<n] (Some (Inr (net, k, []))) = Some (Inr (net', k', h))
        \<and> net_ok net' \<and> length h = n"
proof (induction n)
  case 0
  then show ?case using assms(2) by simp
next
  case (Suc n)
  then obtain net' k' h where
    f: "fold (\<lambda>ep st. case st of None \<Rightarrow> None | Some (Inl e) \<Rightarrow> Some (Inl e)
                     | Some (Inr s) \<Rightarrow> train_epoch samples cfg rnd ep s)
          [0..<n] (Some (Inr (net, k, []))) = Some (Inr (net', k', h))"
    and ok: "net_ok net'" and l: "length h = n"
    by blast
  from train_epoch_ok [OF assms(1) ok, of samples rnd n k' h]
  obtain net'' k'' e where
    "train_epoch samples cfg rnd n (net', k', h) = Some (Inr (net'', k'', h @ [e]))"
    "net_ok net''"
    by blast
  with f l show ?case by simp
qed

lemma train_ok:
  assumes "0 < batchSize cfg" "net_ok net"
  shows "\<exists>net' k' h. train net samples cfg rnd k = Some (Inr (net', k', h))
        \<and> net_ok net' \<and> length h = epochs cfg"
  unfolding train_def using assms by (rule train_loop_ok)

lemma train_epoch_diverges:
  assumes "batchSize cfg = 0" "samples \<noteq> []" "length (biases net) = length (weights net)"
  shows "train_epoch samples cfg rnd ep (net, k, h) = None"
proof -
  from epoch_indices [of cfg "length samples" rnd k] obtain indices k' where
    i: "(if shuffle cfg then shuffle_indices [0..<length samples] rnd k
         else ([0..<length samples], k)) = (indices, k')"
    and m: "mset indices = mset [0..<length samples]"
    by blast
  from m have "length indices = length samples"
    by (metis length_upt mset_eq_length minus_nat.diff_0)
  with assms(2) have pos: "0 < length indices" by simp
  have "train_batches samples indices (batchSize cfg) (lr cfg) 0 (net, 0, 0) = None"
  proof (cases "train_batches samples indices (batchSize cfg) (lr cfg) 0 (net, 0, 0)")
    case None
    then show ?thesis .
  next
    case (Some r)
    from train_batches_diverges [OF this] assms(1,3) pos show ?thesis by simp
  qed
  then show ?thesis
    by (simp add: train_epoch_def Let_def i)
qed

lemma fold_None:
  "fold (\<lambda>ep st. case st of None \<Rightarrow> None | Some (Inl e) \<Rightarrow> Some (Inl e)
                     | Some (Inr s) \<Rightarrow> f ep s) xs None = None"
  by (induction xs) simp_all

lemma train_diverges:
  assumes "batchSize cfg = 0" "0 < epochs cfg" "samples \<noteq> []"
    "length (biases net) = length (weights net)"
  shows "train net samples cfg rnd k = None"
proof -
  from assms(2) have e: "[0..<epochs cfg] = 0 # [1..<epochs cfg]"
    by (simp add: upt_conv_Cons)
  show ?thesis
    unfolding train_def e
    by (simp add: train_epoch_diverges [OF assms(1,3,4)] fold_None)
qed

lemma net1_ok: "net_ok net1"
  by (simp add: net_ok_def net1_def activations_def)

lemma updated_nth:
  "length (weights (updated net accDw accDb s)) = length (weights net)"
  "length (biases (updated net accDw accDb s)) = length (weights net)"
  "layerSizes (updated net accDw accDb s) = layerSizes net"
  "hiddenActivation (updated net accDw accDb s) = hiddenActivation net"
  "i < length (weights net) \<Longrightarrow>
     weights (updated net accDw accDb s) ! i = sub (weights net ! i) (scale (accDw ! i) s)"
  "i < length (weights net) \<Longrightarrow>
     biases (updated net accDw accDb s) ! i = sub (biases net ! i) (scale (accDb ! i) s)"
  by (simp_all add: updated_def)

lemma single_batch:
  assumes "net_ok net" "\<forall>idx\<in>set indices. idx < length samples"
    "0 < length indices \<and> length indices < bsz"
  shows "\<exists>accDw accDb tot' c'.
         accumulate_batch net samples indices (tot, c) = Inr (accDw, accDb, tot', c')
       \<and> train_batches samples indices bsz rate 0 (net, tot, c)
           = Some (Inr (updated net accDw accDb (js_div rate (Num (real (length indices)))),
                        tot', c'))"
proof -
  from train_batch_ok [OF assms(1,2), of tot c rate]
  obtain accDw accDb tot' c' where
    acc: "accumulate_batch net samples indices (tot, c) = Inr (accDw, accDb, tot', c')"
    and tb: "train_batch samples indices rate (net, tot, c)
        = Inr (updated net accDw accDb (js_div rate (Num (real (length indices)))), tot', c')"
    by blast
  let ?net' = "updated net accDw accDb (js_div rate (Num (real (length indices))))"
  from assms(3) have z: "0 < length indices" and t: "take bsz indices = indices"
    and d: "length indices \<le> bsz"
    by simp_all
  have "train_batches samples indices bsz rate 0 (net, tot, c)
      = (case train_batch samples indices rate (net, tot, c) of
           Inl e \<Rightarrow> Some (Inl e)
         | Inr st' \<Rightarrow> train_batches samples indices bsz rate (0 + bsz) st')"
    by (simp add: train_batches_step [OF z] t)
  also have "\<dots> = Some (Inr (?net', tot', c'))"
    unfolding tb by (simp add: train_batches_done [OF d])
  finally show ?thesis using acc by blast
qed

lemma accumulate_shape:
  "rows (fold (\<lambda>idx a. add a (g idx)) batch A) = rows A"
  "cols (fold (\<lambda>idx a. add a (g idx)) batch A) = cols A"
  by (induction batch arbitrary: A) (simp_all add: add_shape)

lemma accumulate_length:
  "length (data A) = rows A * cols A \<Longrightarrow>
   length (data (fold (\<lambda>idx a. add a (g idx)) batch A)) = rows A * cols A"
  by (induction batch arbitrary: A) (simp_all add: add_shape)

lemma accumulate_entry:
  "length (data A) = rows A * cols A \<Longrightarrow> k < rows A * cols A \<Longrightarrow>
   data (fold (\<lambda>idx a. add a (g idx)) batch A) ! k
     = fold (\<lambda>idx v. v + f64_get (data (g idx)) k) batch (data A ! k)"
proof (induction batch arbitrary: A)
  case Nil
  then show ?case by simp
next
  case (Cons x batch)
  have "data (fold (\<lambda>idx a. add a (g idx)) batch (add A (g x))) ! k
      = fold (\<lambda>idx v. v + f64_get (data (g idx)) k) batch (data (add A (g x)) ! k)"
    using Cons.prems by (intro Cons.IH) (simp_all add: add_shape)
  moreover have "data (add A (g x)) ! k = data A ! k + f64_get (data (g x)) k"
    using Cons.prems by (simp add: add_data f64_get_def)
  ultimately show ?case by simp
qed

lemma accumulate_zero_entry:
  assumes "k < r * c"
  shows "data (fold (\<lambda>idx a. add a (g idx)) batch (zeros r c)) ! k
     = fold (\<lambda>idx v. v + f64_get (data (g idx)) k) batch 0"
  using accumulate_entry [of "zeros r c" k g batch] assms
  by (simp add: zeros_def)

lemma update_entry:
  assumes "wf_matrix W" "rows A = rows W" "cols A = cols W"
    "length (data A) = rows W * cols W" "k < length (data W)"
  shows "data (sub W (scale A s)) ! k = data W ! k - data A ! k * s"
  using assms by (simp add: sub_data scale_data f64_get_def wf_matrix_def)

lemma update_layer:
  assumes "wf_matrix W"
    and "acc = fold (\<lambda>idx a. add a (g idx)) batch (zeros (rows W) (cols W))"
  shows "rows (sub W (scale acc s)) = rows W \<and> cols (sub W (scale acc s)) = cols W
       \<and> length (data (sub W (scale acc s))) = length (data W)
       \<and> (\<forall>k<length (data W).
             data acc ! k = fold (\<lambda>idx v. v + f64_get (data (g idx)) k) batch 0
           \<and> data (sub W (scale acc s)) ! k = data W ! k - data acc ! k * s)"
proof -
  have sh: "rows acc = rows W" "cols acc = cols W" "length (data acc) = rows W * cols W"
    unfolding assms(2)
    by (simp_all add: accumulate_shape accumulate_length zeros_def)
  have "data acc ! k = fold (\<lambda>idx v. v + f64_get (data (g idx)) k) batch 0
           \<and> data (sub W (scale acc s)) ! k = data W ! k - data acc ! k * s"
    if "k < length (data W)" for k
  proof -
    from that assms(1) have "k < rows W * cols W" by (simp add: wf_matrix_def)
    then have "data acc ! k = fold (\<lambda>idx v. v + f64_get (data (g idx)) k) batch 0"
      unfolding assms(2) by (rule accumulate_zero_entry)
    moreover have "data (sub W (scale acc s)) ! k = data W ! k - data acc ! k * s"
      using assms(1) sh that by (rule update_entry)
    ultimately show ?thesis ..
  qed
  then show ?thesis
    using assms(1) by (simp add: sub_shape wf_matrix_def)
qed

lemma updated_entries:
  assumes "net_ok net" "wf_params net"
    and "accDw = map (\<lambda>i. fold (\<lambda>idx a. add a (sample_dw net samples idx ! i)) batch
                          (zeros (rows (weights net ! i)) (cols (weights net ! i))))
                 [0..<length (weights net)]"
    and "accDb = map (\<lambda>i. fold (\<lambda>idx a. add a (sample_db net samples idx ! i)) batch
                          (zeros (rows (biases net ! i)) (cols (biases net ! i))))
                 [0..<length (weights net)]"
    and "i < length (weights net)"
  shows "rows (weights (updated net accDw accDb s) ! i) = rows (weights net ! i)
       \<and> cols (weights (updated net accDw accDb s) ! i) = cols (weights net ! i)
       \<and> length (data (weights (updated net accDw accDb s) ! i)) = length (data (weights net ! i))
       \<and> (\<forall>k<length (data (weights net ! i)).
             data (accDw ! i) ! k
               = fold (\<lambda>idx v. v + f64_get (data (sample_dw net samples idx ! i)) k) batch 0
           \<and> data (weights (updated net accDw accDb s) ! i) ! k
               = data (weights net ! i) ! k - data (accDw ! i) ! k * s)
       \<and> rows (biases (updated net accDw accDb s) ! i) = rows (biases net ! i)
       \<and> cols (biases (updated net accDw accDb s) ! i) = cols (biases net ! i)
       \<and> length (data (biases (updated net accDw accDb s) ! i)) = length (data (biases net ! i))
       \<and> (\<forall>k<length (data (biases net ! i)).
             data (accDb ! i) ! k
               = fold (\<lambda>idx v. v + f64_get (data (sample_db net samples idx ! i)) k) batch 0
           \<and> data (biases (updated net accDw accDb s) ! i) ! k
               = data (biases net ! i) ! k - data (accDb ! i) ! k * s)"
proof -
  from assms(1) have lb: "length (biases net) = length (weights net)"
    by (simp add: net_ok_def)
  from assms(2,5) lb have w: "wf_matrix (weights net ! i)" and b: "wf_matrix (biases net ! i)"
    by (simp_all add: wf_params_def list_all_length)
  have aw: "accDw ! i = fold (\<lambda>idx a. add a (sample_dw net samples idx ! i)) batch
                          (zeros (rows (weights net ! i)) (cols (weights net ! i)))"
    and ab: "accDb ! i = fold (\<lambda>idx a. add a (sample_db net samples idx ! i)) batch
                          (zeros (rows (biases net ! i)) (cols (biases net ! i)))"
    using assms(5) by (simp_all add: assms(3,4))
  have uw: "weights (updated net accDw accDb s) ! i = sub (weights net ! i) (scale (accDw ! i) s)"
    and ub: "biases (updated net accDw accDb s) ! i = sub (biases net ! i) (scale (accDb ! i) s)"
    using assms(5) by (simp_all add: updated_nth)
  show ?thesis
    unfolding uw ub
    using update_layer [OF w aw, of s] update_layer [OF b ab, of s] by simp
qed

lemma net2_ok: "net_ok net2"
  by (simp add: net_ok_def net2_def activations_def)

lemma net2_params: "wf_params net2"
  by (simp add: wf_params_def net2_def wf_matrix_def)

lemma sample2_dw:
  "sample_dw net2 [sample2, sample2] 0
     = [\<lparr>rows = 1, cols = 2, data = [Num (3 / 2), Num (1 / 2)]\<rparr>,
        \<lparr>rows = 2, cols = 1, data = [Num (- (1 / 2)), Num (1 / 2)]\<rparr>]"
  "sample_dw net2 [sample2, sample2] (Suc 0)
     = [\<lparr>rows = 1, cols = 2, data = [Num (3 / 2), Num (1 / 2)]\<rparr>,
        \<lparr>rows = 2, cols = 1, data = [Num (- (1 / 2)), Num (1 / 2)]\<rparr>]"
  by (simp_all add: sample_dw_def sample2_def backward_net2)

lemma sample2_db:
  "sample_db net2 [sample2, sample2] 0
     = [\<lparr>rows = 1, cols = 1, data = [Num (1 / 2)]\<rparr>,
        \<lparr>rows = 2, cols = 1, data = [Num (- (1 / 2)), Num (1 / 2)]\<rparr>]"
  "sample_db net2 [sample2, sample2] (Suc 0)
     = [\<lparr>rows = 1, cols = 1, data = [Num (1 / 2)]\<rparr>,
        \<lparr>rows = 2, cols = 1, data = [Num (- (1 / 2)), Num (1 / 2)]\<rparr>]"
  by (simp_all add: sample_db_def sample2_def backward_net2)

lemma net2_nth:
  "weights net2 ! 0 = \<lparr>rows = 1, cols = 2, data = [Num 1, Num 0]\<rparr>"
  "weights net2 ! Suc 0 = \<lparr>rows = 2, cols = 1, data = [Num 1, Num 2]\<rparr>"
  "biases net2 ! 0 = \<lparr>rows = 1, cols = 1, data = [Num (- 2)]\<rparr>"
  "biases net2 ! Suc 0 = \<lparr>rows = 2, cols = 1, data = [Num 1, Num 0]\<rparr>"
  by (simp_all add: net2_def)

lemma fold_add_const:
  "\<forall>x\<in>set xs. f x = Num c \<Longrightarrow>
   fold (\<lambda>x v. v + f x) xs (Num a) = Num (a + real (length xs) * c)"
  by (induction xs arbitrary: a) (simp_all add: algebra_simps)

text \<open>
  Claim C3. On a network with a bias per weight matrix, a registered activation and
  buffers of \<^verbatim>\<open>rows * cols\<close> entries, and indices that all name a sample: the turn
  of the batch loop at offset \<open>b\<close> works on the batch
  \<^verbatim>\<open>indices.slice(b, b + batchSize)\<close>, of \<open>min batchSize (n - b)\<close> indices.
  Entry \<open>k\<close> of the accumulator \<open>accDw\<^sub>i\<close> is the sum from 0 of the entries \<open>k\<close> of the
  gradients \<open>dw\<^sub>i\<close> of the samples of the batch, and entry \<open>k\<close> of \<open>W\<^sub>i\<close> becomes
  \<open>W\<^sub>i[k] - accDw\<^sub>i[k] \<cdot> (lr / |batch|)\<close>, the shape of \<open>W\<^sub>i\<close> unchanged; likewise for
  \<open>accDb\<^sub>i\<close> and \<open>b\<^sub>i\<close>. When \<^verbatim>\<open>batchSize\<close> exceeds the number of samples,
  an epoch returns after one such update over a permutation of all the samples, with the
  number of samples as the divisor.
\<close>

theorem batch_update:
  assumes "net_ok net" and "wf_params net" and "\<forall>idx\<in>set indices. idx < length samples"
  shows
   "(b < length indices \<longrightarrow>
      (\<exists>accDw accDb tot' c' net'.
         accumulate_batch net samples (take bsz (drop b indices)) (tot, c)
           = Inr (accDw, accDb, tot', c')
       \<and> train_batches samples indices bsz rate b (net, tot, c)
           = train_batches samples indices bsz rate (b + bsz) (net', tot', c')
       \<and> layerSizes net' = layerSizes net \<and> hiddenActivation net' = hiddenActivation net
       \<and> length (weights net') = length (weights net)
       \<and> length (biases net') = length (weights net)
       \<and> (\<forall>i<length (weights net).
             rows (weights net' ! i) = rows (weights net ! i)
           \<and> cols (weights net' ! i) = cols (weights net ! i)
           \<and> length (data (weights net' ! i)) = length (data (weights net ! i))
           \<and> (\<forall>k<length (data (weights net ! i)).
                 data (accDw ! i) ! k
                   = fold (\<lambda>idx v. v + f64_get (data (sample_dw net samples idx ! i)) k)
                          (take bsz (drop b indices)) 0
               \<and> data (weights net' ! i) ! k
                   = data (weights net ! i) ! k
                     - data (accDw ! i) ! k
                       * js_div rate (Num (real (min bsz (length indices - b)))))
           \<and> rows (biases net' ! i) = rows (biases net ! i)
           \<and> cols (biases net' ! i) = cols (biases net ! i)
           \<and> length (data (biases net' ! i)) = length (data (biases net ! i))
           \<and> (\<forall>k<length (data (biases net ! i)).
                 data (accDb ! i) ! k
                   = fold (\<lambda>idx v. v + f64_get (data (sample_db net samples idx ! i)) k)
                          (take bsz (drop b indices)) 0
               \<and> data (biases net' ! i) ! k
                   = data (biases net ! i) ! k
                     - data (accDb ! i) ! k
                       * js_div rate (Num (real (min bsz (length indices - b))))))))
  \<and> (samples \<noteq> [] \<and> length samples < batchSize cfg \<longrightarrow>
      (\<exists>whole k' accDw accDb tot' c' net'.
         mset whole = mset [0..<length samples]
       \<and> accumulate_batch net samples whole (0, 0) = Inr (accDw, accDb, tot', c')
       \<and> train_epoch samples cfg rnd ep (net, k, h)
           = Some (Inr (net', k',
               h @ [\<lparr>epoch = ep, loss = js_div tot' (Num (real (length samples))),
                     accuracy = js_div (Num (real c')) (Num (real (length samples)))\<rparr>]))
       \<and> (\<forall>i<length (weights net).
             (\<forall>k<length (data (weights net ! i)).
                 data (accDw ! i) ! k
                   = fold (\<lambda>idx v. v + f64_get (data (sample_dw net samples idx ! i)) k) whole 0
               \<and> data (weights net' ! i) ! k
                   = data (weights net ! i) ! k
                     - data (accDw ! i) ! k * js_div (lr cfg) (Num (real (length samples))))
           \<and> (\<forall>k<length (data (biases net ! i)).
                 data (accDb ! i) ! k
                   = fold (\<lambda>idx v. v + f64_get (data (sample_db net samples idx ! i)) k) whole 0
               \<and> data (biases net' ! i) ! k
                   = data (biases net ! i) ! k
                     - data (accDb ! i) ! k * js_div (lr cfg) (Num (real (length samples)))))))"
proof (intro conjI impI)
  assume b: "b < length indices"
  let ?batch = "take bsz (drop b indices)"
  have v: "\<forall>idx\<in>set ?batch. idx < length samples"
    using assms(3) by (meson in_set_dropD in_set_takeD)
  from train_batch_ok [OF assms(1) v, of tot c rate]
  obtain accDw accDb tot' c' where
    acc: "accumulate_batch net samples ?batch (tot, c) = Inr (accDw, accDb, tot', c')"
    and dw: "accDw = map (\<lambda>i. fold (\<lambda>idx a. add a (sample_dw net samples idx ! i)) ?batch
                          (zeros (rows (weights net ! i)) (cols (weights net ! i))))
                 [0..<length (weights net)]"
    and db: "accDb = map (\<lambda>i. fold (\<lambda>idx a. add a (sample_db net samples idx ! i)) ?batch
                          (zeros (rows (biases net ! i)) (cols (biases net ! i))))
                 [0..<length (weights net)]"
    and tb: "train_batch samples ?batch rate (net, tot, c)
        = Inr (updated net accDw accDb (js_div rate (Num (real (length ?batch)))), tot', c')"
    by blast
  have len: "length ?batch = min bsz (length indices - b)" by simp
  let ?s = "js_div rate (Num (real (min bsz (length indices - b))))"
  let ?net' = "updated net accDw accDb ?s"
  have step: "train_batches samples indices bsz rate b (net, tot, c)
           = train_batches samples indices bsz rate (b + bsz) (?net', tot', c')"
    using tb unfolding len by (simp add: train_batches_step [OF b])
  have ent: "\<forall>i<length (weights net).
             rows (weights ?net' ! i) = rows (weights net ! i)
           \<and> cols (weights ?net' ! i) = cols (weights net ! i)
           \<and> length (data (weights ?net' ! i)) = length (data (weights net ! i))
           \<and> (\<forall>k<length (data (weights net ! i)).
                 data (accDw ! i) ! k
                   = fold (\<lambda>idx v. v + f64_get (data (sample_dw net samples idx ! i)) k) ?batch 0
               \<and> data (weights ?net' ! i) ! k
                   = data (weights net ! i) ! k - data (accDw ! i) ! k * ?s)
           \<and> rows (biases ?net' ! i) = rows (biases net ! i)
           \<and> cols (biases ?net' ! i) = cols (biases net ! i)
           \<and> length (data (biases ?net' ! i)) = length (data (biases net ! i))
           \<and> (\<forall>k<length (data (biases net ! i)).
                 data (accDb ! i) ! k
                   = fold (\<lambda>idx v. v + f64_get (data (sample_db net samples idx ! i)) k) ?batch 0
               \<and> data (biases ?net' ! i) ! k
                   = data (biases net ! i) ! k - data (accDb ! i) ! k * ?s)"
    using updated_entries [OF assms(1,2) dw db, of _ ?s] by blast
  show "\<exists>accDw accDb tot' c' net'.
         accumulate_batch net samples ?batch (tot, c) = Inr (accDw, accDb, tot', c')
       \<and> train_batches samples indices bsz rate b (net, tot, c)
           = train_batches samples indices bsz rate (b + bsz) (net', tot', c')
       \<and> layerSizes net' = layerSizes net \<and> hiddenActivation net' = hiddenActivation net
       \<and> length (weights net') = length (weights net)
       \<and> length (biases net') = length (weights net)
       \<and> (\<forall>i<length (weights net).
             rows (weights net' ! i) = rows (weights net ! i)
           \<and> cols (weights net' ! i) = cols (weights net ! i)
           \<and> length (data (weights net' ! i)) = length (data (weights net ! i))
           \<and> (\<forall>k<length (data (weights net ! i)).
                 data (accDw ! i) ! k
                   = fold (\<lambda>idx v. v + f64_get (data (sample_dw net samples idx ! i)) k) ?batch 0
               \<and> data (weights net' ! i) ! k
                   = data (weights net ! i) ! k - data (accDw ! i) ! k * ?s)
           \<and> rows (biases net' ! i) = rows (biases net ! i)
           \<and> cols (biases net' ! i) = cols (biases net ! i)
           \<and> length (data (biases net' ! i)) = length (data (biases net ! i))
           \<and> (\<forall>k<length (data (biases net ! i)).
                 data (accDb ! i) ! k
                   = fold (\<lambda>idx v. v + f64_get (data (sample_db net samples idx ! i)) k) ?batch 0
               \<and> data (biases net' ! i) ! k
                   = data (biases net ! i) ! k - data (accDb ! i) ! k * ?s))"
    using acc step ent
    by (intro exI [of _ accDw] exI [of _ accDb] exI [of _ tot'] exI [of _ c'] exI [of _ ?net'])
       (simp add: updated_nth)
next
  assume hyp: "samples \<noteq> [] \<and> length samples < batchSize cfg"
  from epoch_indices [of cfg "length samples" rnd k] obtain whole k' where
    i: "(if shuffle cfg then shuffle_indices [0..<length samples] rnd k
         else ([0..<length samples], k)) = (whole, k')"
    and m: "mset whole = mset [0..<length samples]"
    by blast
  from m have "set whole = set [0..<length samples]" by (rule mset_eq_setD)
  then have v: "\<forall>idx\<in>set whole. idx < length samples" by simp
  from m have l: "length whole = length samples"
    by (metis length_upt mset_eq_length minus_nat.diff_0)
  with hyp have sz: "0 < length whole \<and> length whole < batchSize cfg" by simp
  from train_batch_ok [OF assms(1) v, of 0 0 "lr cfg"]
  obtain accDw accDb tot' c' where
    acc: "accumulate_batch net samples whole (0, 0) = Inr (accDw, accDb, tot', c')"
    and dw: "accDw = map (\<lambda>i. fold (\<lambda>idx a. add a (sample_dw net samples idx ! i)) whole
                          (zeros (rows (weights net ! i)) (cols (weights net ! i))))
                 [0..<length (weights net)]"
    and db: "accDb = map (\<lambda>i. fold (\<lambda>idx a. add a (sample_db net samples idx ! i)) whole
                          (zeros (rows (biases net ! i)) (cols (biases net ! i))))
                 [0..<length (weights net)]"
    by blast
  from single_batch [OF assms(1) v sz, of 0 0 "lr cfg"] acc
  have tb: "train_batches samples whole (batchSize cfg) (lr cfg) 0 (net, 0, 0)
       = Some (Inr (updated net accDw accDb (js_div (lr cfg) (Num (real (length whole)))),
                    tot', c'))"
    by auto
  let ?s = "js_div (lr cfg) (Num (real (length samples)))"
  let ?net' = "updated net accDw accDb ?s"
  have ep: "train_epoch samples cfg rnd ep (net, k, h)
           = Some (Inr (?net', k',
               h @ [\<lparr>epoch = ep, loss = js_div tot' (Num (real (length samples))),
                     accuracy = js_div (Num (real c')) (Num (real (length samples)))\<rparr>]))"
    using tb unfolding l by (simp add: train_epoch_def Let_def i)
  have ent: "\<forall>i<length (weights net).
             (\<forall>k<length (data (weights net ! i)).
                 data (accDw ! i) ! k
                   = fold (\<lambda>idx v. v + f64_get (data (sample_dw net samples idx ! i)) k) whole 0
               \<and> data (weights ?net' ! i) ! k
                   = data (weights net ! i) ! k - data (accDw ! i) ! k * ?s)
           \<and> (\<forall>k<length (data (biases net ! i)).
                 data (accDb ! i) ! k
                   = fold (\<lambda>idx v. v + f64_get (data (sample_db net samples idx ! i)) k) whole 0
               \<and> data (biases ?net' ! i) ! k
                   = data (biases net ! i) ! k - data (accDb ! i) ! k * ?s)"
    using updated_entries [OF assms(1,2) dw db, of _ ?s] by blast
  show "\<exists>whole k' accDw accDb tot' c' net'.
         mset whole = mset [0..<length samples]
       \<and> accumulate_batch net samples whole (0, 0) = Inr (accDw, accDb, tot', c')
       \<and> train_epoch samples cfg rnd ep (net, k, h)
           = Some (Inr (net', k',
               h @ [\<lparr>epoch = ep, loss = js_div tot' (Num (real (length samples))),
                     accuracy = js_div (Num (real c')) (Num (real (length samples)))\<rparr>]))
       \<and> (\<forall>i<length (weights net).
             (\<forall>k<length (data (weights net ! i)).
                 data (accDw ! i) ! k
                   = fold (\<lambda>idx v. v + f64_get (data (sample_dw net samples idx ! i)) k) whole 0
               \<and> data (weights net' ! i) ! k
                   = data (weights net ! i) ! k - data (accDw ! i) ! k * ?s)
           \<and> (\<forall>k<length (data (biases net ! i)).
                 data (accDb ! i) ! k
                   = fold (\<lambda>idx v. v + f64_get (data (sample_db net samples idx ! i)) k) whole 0
               \<and> data (biases net' ! i) ! k
                   = data (biases net ! i) ! k - data (accDb ! i) ! k * ?s))"
    using m acc ep ent
    by (intro exI [of _ whole] exI [of _ k'] exI [of _ accDw] exI [of _ accDb]
          exI [of _ tot'] exI [of _ c'] exI [of _ ?net']) simp
qed

theorem batch_update_witness:
  "net_ok net2 \<and> wf_params net2
   \<and> [sample2, sample2] \<noteq> [] \<and> length [sample2, sample2] < batchSize big_batch_cfg
   \<and> (\<exists>net' tot' c'.
         train_batches [sample2, sample2] [0, 1] 3 (Num 1) 0 (net2, 0, 0)
           = Some (Inr (net', tot', c'))
       \<and> data (weights net' ! 0) ! 0 = Num (- (1 / 2))
       \<and> data (weights net' ! 0) ! 1 = Num (- (1 / 2))
       \<and> data (weights net' ! 1) ! 0 = Num (3 / 2)
       \<and> data (weights net' ! 1) ! 1 = Num (3 / 2)
       \<and> data (biases net' ! 0) ! 0 = Num (- (5 / 2))
       \<and> data (biases net' ! 1) ! 0 = Num (3 / 2)
       \<and> data (biases net' ! 1) ! 1 = Num (- (1 / 2)))
   \<and> (\<exists>net' k' e.
         train_epoch [sample2, sample2] big_batch_cfg zero_rng 0 (net2, 0, [])
           = Some (Inr (net', k', [e]))
       \<and> data (weights net' ! 0) ! 0 = Num (- (1 / 2)))"
proof -
  let ?S = "[sample2, sample2]"
  let ?B = "take 3 (drop 0 [0, 1::nat])"
  let ?s = "js_div (Num 1) (Num (real (min 3 (length [0, 1::nat] - 0))))"
  have v: "\<forall>idx\<in>set [0, 1]. idx < length ?S" by simp
  have h1: "0 < length [0, 1::nat]" by simp
  have h2: "?S \<noteq> [] \<and> length ?S < batchSize big_batch_cfg"
    by (simp add: big_batch_cfg_def)
  note bu = batch_update [OF net2_ok net2_params v, of 0 3 0 0 "Num 1" big_batch_cfg zero_rng 0 0 "[]"]
  from bu [THEN conjunct1, THEN mp, OF h1]
  obtain accDw accDb tot' c' net' where
    acc: "accumulate_batch net2 ?S ?B (0, 0) = Inr (accDw, accDb, tot', c')"
    and step: "train_batches ?S [0, 1] 3 (Num 1) 0 (net2, 0, 0)
           = train_batches ?S [0, 1] 3 (Num 1) (0 + 3) (net', tot', c')"
    and ent: "\<forall>i<length (weights net2).
             rows (weights net' ! i) = rows (weights net2 ! i)
           \<and> cols (weights net' ! i) = cols (weights net2 ! i)
           \<and> length (data (weights net' ! i)) = length (data (weights net2 ! i))
           \<and> (\<forall>k<length (data (weights net2 ! i)).
                 data (accDw ! i) ! k
                   = fold (\<lambda>idx v. v + f64_get (data (sample_dw net2 ?S idx ! i)) k) ?B 0
               \<and> data (weights net' ! i) ! k
                   = data (weights net2 ! i) ! k - data (accDw ! i) ! k * ?s)
           \<and> rows (biases net' ! i) = rows (biases net2 ! i)
           \<and> cols (biases net' ! i) = cols (biases net2 ! i)
           \<and> length (data (biases net' ! i)) = length (data (biases net2 ! i))
           \<and> (\<forall>k<length (data (biases net2 ! i)).
                 data (accDb ! i) ! k
                   = fold (\<lambda>idx v. v + f64_get (data (sample_db net2 ?S idx ! i)) k) ?B 0
               \<and> data (biases net' ! i) ! k
                   = data (biases net2 ! i) ! k - data (accDb ! i) ! k * ?s)"
    by (elim exE conjE) (rule that; assumption)
  have l0: "0 < length (weights net2)" and l1: "1 < length (weights net2)"
    by (simp_all add: net2_def)
  from ent [rule_format, OF l0]
  have w0: "\<forall>k<length (data (weights net2 ! 0)).
                 data (accDw ! 0) ! k
                   = fold (\<lambda>idx v. v + f64_get (data (sample_dw net2 ?S idx ! 0)) k) ?B 0
               \<and> data (weights net' ! 0) ! k
                   = data (weights net2 ! 0) ! k - data (accDw ! 0) ! k * ?s"
    and b0: "\<forall>k<length (data (biases net2 ! 0)).
                 data (accDb ! 0) ! k
                   = fold (\<lambda>idx v. v + f64_get (data (sample_db net2 ?S idx ! 0)) k) ?B 0
               \<and> data (biases net' ! 0) ! k
                   = data (biases net2 ! 0) ! k - data (accDb ! 0) ! k * ?s"
    by blast+
  from ent [rule_format, OF l1]
  have w1: "\<forall>k<length (data (weights net2 ! 1)).
                 data (accDw ! 1) ! k
                   = fold (\<lambda>idx v. v + f64_get (data (sample_dw net2 ?S idx ! 1)) k) ?B 0
               \<and> data (weights net' ! 1) ! k
                   = data (weights net2 ! 1) ! k - data (accDw ! 1) ! k * ?s"
    and b1: "\<forall>k<length (data (biases net2 ! 1)).
                 data (accDb ! 1) ! k
                   = fold (\<lambda>idx v. v + f64_get (data (sample_db net2 ?S idx ! 1)) k) ?B 0
               \<and> data (biases net' ! 1) ! k
                   = data (biases net2 ! 1) ! k - data (accDb ! 1) ! k * ?s"
    by blast+
  have e: "data (weights net' ! 0) ! 0 = Num (- (1 / 2))"
       "data (weights net' ! 0) ! 1 = Num (- (1 / 2))"
       "data (weights net' ! 1) ! 0 = Num (3 / 2)"
       "data (weights net' ! 1) ! 1 = Num (3 / 2)"
       "data (biases net' ! 0) ! 0 = Num (- (5 / 2))"
       "data (biases net' ! 1) ! 0 = Num (3 / 2)"
       "data (biases net' ! 1) ! 1 = Num (- (1 / 2))"
    using w0 [rule_format, of 0] w0 [rule_format, of 1] w1 [rule_format, of 0]
      w1 [rule_format, of 1] b0 [rule_format, of 0] b1 [rule_format, of 0] b1 [rule_format, of 1]
    by (simp_all add: net2_nth sample2_dw sample2_db f64_get_def zero_jsnum_def minus_jsnum_def)
  have fin: "train_batches ?S [0, 1] 3 (Num 1) 0 (net2, 0, 0) = Some (Inr (net', tot', c'))"
    unfolding step by (simp add: train_batches_done)
  have first: "\<exists>net' tot' c'.
         train_batches ?S [0, 1] 3 (Num 1) 0 (net2, 0, 0) = Some (Inr (net', tot', c'))
       \<and> data (weights net' ! 0) ! 0 = Num (- (1 / 2))
       \<and> data (weights net' ! 0) ! 1 = Num (- (1 / 2))
       \<and> data (weights net' ! 1) ! 0 = Num (3 / 2)
       \<and> data (weights net' ! 1) ! 1 = Num (3 / 2)
       \<and> data (biases net' ! 0) ! 0 = Num (- (5 / 2))
       \<and> data (biases net' ! 1) ! 0 = Num (3 / 2)
       \<and> data (biases net' ! 1) ! 1 = Num (- (1 / 2))"
    using fin e by (intro exI [of _ net'] exI [of _ tot'] exI [of _ c']) simp
  from bu [THEN conjunct2, THEN mp, OF h2]
  obtain whole k' aw ab t2 c2 n2 where
    m: "mset whole = mset [0..<length ?S]"
    and acc2: "accumulate_batch net2 ?S whole (0, 0) = Inr (aw, ab, t2, c2)"
    and ep: "train_epoch ?S big_batch_cfg zero_rng 0 (net2, 0, [])
           = Some (Inr (n2, k',
               [] @ [\<lparr>epoch = 0, loss = js_div t2 (Num (real (length ?S))),
                     accuracy = js_div (Num (real c2)) (Num (real (length ?S)))\<rparr>]))"
    and ent2: "\<forall>i<length (weights net2).
             (\<forall>k<length (data (weights net2 ! i)).
                 data (aw ! i) ! k
                   = fold (\<lambda>idx v. v + f64_get (data (sample_dw net2 ?S idx ! i)) k) whole 0
               \<and> data (weights n2 ! i) ! k
                   = data (weights net2 ! i) ! k
                     - data (aw ! i) ! k * js_div (lr big_batch_cfg) (Num (real (length ?S))))
           \<and> (\<forall>k<length (data (biases net2 ! i)).
                 data (ab ! i) ! k
                   = fold (\<lambda>idx v. v + f64_get (data (sample_db net2 ?S idx ! i)) k) whole 0
               \<and> data (biases n2 ! i) ! k
                   = data (biases net2 ! i) ! k
                     - data (ab ! i) ! k * js_div (lr big_batch_cfg) (Num (real (length ?S))))"
    by (elim exE conjE) (rule that; assumption)
  from m have sw: "set whole = set [0..<length ?S]" by (rule mset_eq_setD)
  from m have lw: "length whole = 2"
    using mset_eq_length by fastforce
  have "\<forall>idx\<in>set whole. f64_get (data (sample_dw net2 ?S idx ! 0)) 0 = Num (3 / 2)"
    unfolding sw by (auto simp: less_Suc_eq sample2_dw f64_get_def)
  then have "fold (\<lambda>idx v. v + f64_get (data (sample_dw net2 ?S idx ! 0)) 0) whole (Num 0)
      = Num (0 + real (length whole) * (3 / 2))"
    by (rule fold_add_const)
  then have sum: "fold (\<lambda>idx v. v + f64_get (data (sample_dw net2 ?S idx ! 0)) 0) whole 0 = Num 3"
    by (simp add: lw zero_jsnum_def)
  from ent2 [rule_format, OF l0]
  have "\<forall>k<length (data (weights net2 ! 0)).
                 data (aw ! 0) ! k
                   = fold (\<lambda>idx v. v + f64_get (data (sample_dw net2 ?S idx ! 0)) k) whole 0
               \<and> data (weights n2 ! 0) ! k
                   = data (weights net2 ! 0) ! k
                     - data (aw ! 0) ! k * js_div (lr big_batch_cfg) (Num (real (length ?S)))"
    by blast
  from this [rule_format, of 0] sum
  have "data (weights n2 ! 0) ! 0 = Num (- (1 / 2))"
    by (simp add: net2_nth big_batch_cfg_def minus_jsnum_def)
  with ep have second: "\<exists>net' k' e.
         train_epoch ?S big_batch_cfg zero_rng 0 (net2, 0, []) = Some (Inr (net', k', [e]))
       \<and> data (weights net' ! 0) ! 0 = Num (- (1 / 2))"
    by (intro exI [of _ n2] exI [of _ k'] exI) simp
  from net2_ok net2_params h2 first second show ?thesis
    by (intro conjI) simp_all
qed

text \<open>
  Claim C4, as amended. \<^verbatim>\<open>train\<close> validates nothing. With \<^verbatim>\<open>epochs = 0\<close> it
  returns the empty history and the network as it was. With \<^verbatim>\<open>batchSize = 0\<close>, at
  least one epoch and at least one sample it does not return. With a positive
  \<^verbatim>\<open>batchSize\<close> it returns a history of \<^verbatim>\<open>epochs\<close> entries for every learning
  rate, positive or not.
\<close>

theorem train_unvalidated:
  "(epochs cfg = 0 \<longrightarrow> train net samples cfg rnd k = Some (Inr (net, k, [])))
   \<and> (batchSize cfg = 0 \<and> 0 < epochs cfg \<and> samples \<noteq> []
        \<and> length (biases net) = length (weights net)
      \<longrightarrow> train net samples cfg rnd k = None)
   \<and> (0 < batchSize cfg \<and> net_ok net
      \<longrightarrow> (\<forall>rate. \<exists>net' k' h. train net samples (cfg\<lparr>lr := rate\<rparr>) rnd k
                                  = Some (Inr (net', k', h))
                              \<and> length h = epochs cfg))"
proof (intro conjI impI allI)
  assume "epochs cfg = 0"
  then show "train net samples cfg rnd k = Some (Inr (net, k, []))"
    by (simp add: train_def)
next
  assume "batchSize cfg = 0 \<and> 0 < epochs cfg \<and> samples \<noteq> []
        \<and> length (biases net) = length (weights net)"
  then show "train net samples cfg rnd k = None"
    by (simp add: train_diverges)
next
  fix rate
  assume a: "0 < batchSize cfg \<and> net_ok net"
  then have "0 < batchSize (cfg\<lparr>lr := rate\<rparr>)" by simp
  from train_ok [OF this, of net samples rnd k] a
  show "\<exists>net' k' h. train net samples (cfg\<lparr>lr := rate\<rparr>) rnd k = Some (Inr (net', k', h))
                              \<and> length h = epochs cfg"
    by auto
qed

theorem train_unvalidated_witness:
  "train net1 [sample1] invalid_cfg zero_rng 0 = Some (Inr (net1, 0, []))
   \<and> train net1 [sample1] zero_batch_cfg zero_rng 0 = None
   \<and> (\<exists>net' k' h. train net1 [sample1] negative_rate_cfg zero_rng 0 = Some (Inr (net', k', h))
                   \<and> length h = 2)"
proof -
  have a: "train net1 [sample1] invalid_cfg zero_rng 0 = Some (Inr (net1, 0, []))"
    using train_unvalidated [of invalid_cfg net1 "[sample1]" zero_rng 0]
    by (simp add: invalid_cfg_def)
  have b: "train net1 [sample1] zero_batch_cfg zero_rng 0 = None"
    using train_unvalidated [of zero_batch_cfg net1 "[sample1]" zero_rng 0]
    by (simp add: zero_batch_cfg_def net1_def)
  have "negative_rate_cfg\<lparr>lr := Num (- 1)\<rparr> = negative_rate_cfg"
    by (simp add: negative_rate_cfg_def)
  then have c: "\<exists>net' k' h. train net1 [sample1] negative_rate_cfg zero_rng 0
                     = Some (Inr (net', k', h)) \<and> length h = 2"
    using train_unvalidated [of negative_rate_cfg net1 "[sample1]" zero_rng 0] net1_ok
    by (auto simp: negative_rate_cfg_def dest!: spec [of _ "Num (- 1)"])
  from a b c show ?thesis by blast
qed

text \<open>
  The claim C4 as stated fails: with no epochs, a batch size of 0 and a negative learning
  rate, \<^verbatim>\<open>train\<close> returns normally, with an empty history and the network unchanged.
\<close>

theorem train_zero_epochs:
  "train net1 [sample1] invalid_cfg zero_rng 0 = Some (Inr (net1, 0, []))"
  by (simp add: train_def invalid_cfg_def)

section \<open>Serialisation round trip\<close>

lemma to_number_stringify: "finite_num x \<Longrightarrow> to_number (stringify_num x) = x"
  by (cases x) simp_all

lemma Arr_data:
  "data (Matrix r c (Arr a)) = take (r * c) a @ replicate (r * c - length a) 0"
  by (rule nth_equalityI) (auto simp: loop_nth nth_append)

lemma fromJSON_eq:
  "fromJSON json =
     \<lparr>rows = j_rows json, cols = j_cols json,
      data = (case j_data json of
                None \<Rightarrow> replicate (j_rows json * j_cols json) 0
              | Some a \<Rightarrow> take (j_rows json * j_cols json) (map to_number a)
                          @ replicate (j_rows json * j_cols json - length a) 0)\<rparr>"
proof (cases "j_data json")
  case None
  then show ?thesis by (simp add: fromJSON_def)
next
  case (Some a)
  have "Matrix (j_rows json) (j_cols json) (Arr (map to_number a))
      = \<lparr>rows = j_rows json, cols = j_cols json,
         data = data (Matrix (j_rows json) (j_cols json) (Arr (map to_number a)))\<rparr>"
    by simp
  then show ?thesis
    unfolding Arr_data by (simp add: fromJSON_def Some)
qed

lemma fromJSON_toJSON:
  assumes "finite_matrix m"
  shows "fromJSON (toJSON m) = m"
proof -
  from assms have len: "length (data m) = rows m * cols m"
    and fin: "list_all finite_num (data m)"
    by (simp_all add: finite_matrix_def wf_matrix_def)
  have "map to_number (map stringify_num (data m)) = data m"
    using fin by (induction "data m" arbitrary: m) (simp_all add: list_all_iff to_number_stringify map_idI)
  then show ?thesis
    unfolding fromJSON_eq by (simp add: toJSON_def len)
qed

lemma load_eq:
  "load snap rnd k =
     (case (s_layerSizes snap, s_weights snap, s_biases snap) of
        (Some ls, Some ws, Some bs) \<Rightarrow>
          Inr (\<lparr>layerSizes = ls,
                hiddenActivation = (case s_hiddenActivation snap of None \<Rightarrow> ''relu''
                                    | Some a \<Rightarrow> a),
                weights = map fromJSON ws, biases = map fromJSON bs\<rparr>,
               snd (Network ls (s_hiddenActivation snap) rnd k))
      | _ \<Rightarrow> Inl TypeError)"
  unfolding load_def Network_def Network_loop
  by (simp split: option.splits prod.splits)

text \<open>
  Claim C7, as amended. \<^verbatim>\<open>load\<close> validates nothing. A snapshot without
  \<^verbatim>\<open>layerSizes\<close>, \<^verbatim>\<open>weights\<close> or \<^verbatim>\<open>biases\<close> fails, with a TypeError; one that
  has the three loads, a missing \<^verbatim>\<open>hiddenActivation\<close> becoming \<^verbatim>\<open>'relu'\<close>. A
  matrix record always gives a matrix of \<^verbatim>\<open>rows * cols\<close> entries: its data cut after
  \<^verbatim>\<open>rows * cols\<close> numbers, or followed by zeros up to that length, and all zeros when
  the data is missing.
\<close>

theorem load_unvalidated:
  "(s_layerSizes snap = None \<or> s_weights snap = None \<or> s_biases snap = None
      \<longrightarrow> load snap rnd k = Inl TypeError)
   \<and> (s_layerSizes snap = Some ls \<and> s_weights snap = Some ws \<and> s_biases snap = Some bs
      \<longrightarrow> (\<exists>k'. load snap rnd k
                  = Inr (\<lparr>layerSizes = ls,
                          hiddenActivation = (case s_hiddenActivation snap of
                                                None \<Rightarrow> ''relu'' | Some a \<Rightarrow> a),
                          weights = map fromJSON ws, biases = map fromJSON bs\<rparr>, k')))
   \<and> rows (fromJSON json) = j_rows json \<and> cols (fromJSON json) = j_cols json
   \<and> length (data (fromJSON json)) = j_rows json * j_cols json
   \<and> (j_data json = None
      \<longrightarrow> data (fromJSON json) = replicate (j_rows json * j_cols json) 0)
   \<and> (j_data json = Some a
      \<longrightarrow> data (fromJSON json)
            = take (j_rows json * j_cols json) (map to_number a)
              @ replicate (j_rows json * j_cols json - length a) 0)"
  unfolding load_eq fromJSON_eq by (auto split: option.splits)

theorem load_unvalidated_witness:
  "(\<exists>k'. load padded_snapshot zero_rng 0
            = Inr (\<lparr>layerSizes = [1, 2], hiddenActivation = ''relu'',
                    weights = [fromJSON \<lparr>j_rows = 2, j_cols = 1, j_data = Some [JNum 5]\<rparr>],
                    biases = [fromJSON \<lparr>j_rows = 2, j_cols = 1,
                                        j_data = Some [JNum 1, JNum 2, JNum 3]\<rparr>]\<rparr>, k'))
   \<and> data (fromJSON \<lparr>j_rows = 2, j_cols = 1, j_data = Some [JNum 5]\<rparr>) = [Num 5, Num 0]"
  using load_unvalidated [of padded_snapshot zero_rng 0 "[1, 2]"
      "[\<lparr>j_rows = 2, j_cols = 1, j_data = Some [JNum 5]\<rparr>]"
      "[\<lparr>j_rows = 2, j_cols = 1, j_data = Some [JNum 1, JNum 2, JNum 3]\<rparr>]"
      "\<lparr>j_rows = 2, j_cols = 1, j_data = Some [JNum 5]\<rparr>" "[JNum 5]"]
  by (simp add: padded_snapshot_def zero_jsnum_def eval_nat_numeral)

text \<open>
  The claim C7 as stated fails: the snapshot whose weight record is too short and whose
  bias record is too long loads without an error, the weights padded with a zero and the
  biases cut.
\<close>

theorem load_pads_and_truncates:
  "load padded_snapshot zero_rng 0
     = Inr (\<lparr>layerSizes = [1, 2], hiddenActivation = ''relu'',
             weights = [\<lparr>rows = 2, cols = 1, data = [Num 5, Num 0]\<rparr>],
             biases = [\<lparr>rows = 2, cols = 1, data = [Num 1, Num 2]\<rparr>]\<rparr>, 2)"
  unfolding load_eq fromJSON_eq Network_def Network_loop
  by (simp add: padded_snapshot_def zero_jsnum_def eval_nat_numeral offset_def lessThan_Suc)

text \<open>
  Claim C6, as amended. For every network whose weight and bias matrices have
  \<^verbatim>\<open>rows * cols\<close> entries, all finite, \<^verbatim>\<open>load\<close> of \<^verbatim>\<open>save\<close> gives the same
  network: the same topology, activation name, weights and biases, so \<^verbatim>\<open>predict\<close>
  returns the same result on every input.
\<close>

theorem save_load_roundtrip:
  assumes "list_all finite_matrix (weights N)" and "list_all finite_matrix (biases N)"
  shows "\<exists>N' k'. load (save N) rnd k = Inr (N', k') \<and> N' = N \<and> predict N' x = predict N x"
proof -
  have w: "map (fromJSON \<circ> toJSON) (weights N) = weights N"
    using assms(1) by (simp add: list_all_iff fromJSON_toJSON map_idI)
  have b: "map (fromJSON \<circ> toJSON) (biases N) = biases N"
    using assms(2) by (simp add: list_all_iff fromJSON_toJSON map_idI)
  have e: "\<lparr>layerSizes = layerSizes N, hiddenActivation = hiddenActivation N,
             weights = weights N, biases = biases N\<rparr> = N"
    by (cases N) simp
  show ?thesis
    unfolding load_eq by (simp add: save_def w b e)
qed

theorem save_load_roundtrip_witness:
  "list_all finite_matrix (weights net1) \<and> list_all finite_matrix (biases net1)
   \<and> (\<exists>k'. load (save net1) zero_rng 0 = Inr (net1, k'))"
proof -
  have w: "list_all finite_matrix (weights net1)" and b: "list_all finite_matrix (biases net1)"
    by (simp_all add: net1_def finite_matrix_def wf_matrix_def)
  from save_load_roundtrip [OF w b, of zero_rng 0] show ?thesis
    using w b by blast
qed

text \<open>Training \<open>net1\<close> for one epoch with a learning rate that is NaN gives the
  network whose parameters are NaN.\<close>

lemma x1: "fromArray [Num 1] = \<lparr>rows = 1, cols = 1, data = [Num 1]\<rparr>"
  by (simp add: fromArray_def f64_set_def)

lemma forward_net1:
  "forward net1 \<lparr>rows = 1, cols = 1, data = [Num 1]\<rparr>
     = Inr ([\<lparr>rows = 1, cols = 1, data = [Num 2]\<rparr>],
            [\<lparr>rows = 1, cols = 1, data = [Num 1]\<rparr>, \<lparr>rows = 1, cols = 1, data = [Num 1]\<rparr>])"
  by (simp add: forward_def forward_step_def net1_def add_arg_def nth_opt_def
          mul_def mul_entry_def add_def softmax_def softmax_max_def softmax_exp_def
          f64_get_def f64_set_def zero_jsnum_def minus_jsnum_def Let_def)

lemma backward_net1:
  "backward net1 \<lparr>rows = 1, cols = 1, data = [Num 1]\<rparr> \<lparr>rows = 1, cols = 1, data = [Num 1]\<rparr>
     = Inr ([\<lparr>rows = 1, cols = 1, data = [Num 0]\<rparr>], [\<lparr>rows = 1, cols = 1, data = [Num 0]\<rparr>], Num 0)"
  unfolding backward_def forward_net1
  by (simp add: backward_step_def net1_def sub_def mul_def mul_entry_def transpose_m_def
        crossEntropyLoss_def f64_get_def f64_set_def zero_jsnum_def minus_jsnum_def Let_def)

lemma predict_net1:
  "predict net1 \<lparr>rows = 1, cols = 1, data = [Num 1]\<rparr> = Inr \<lparr>rows = 1, cols = 1, data = [Num 1]\<rparr>"
  unfolding predict_def forward_net1 by simp

lemma train_nan:
  "train net1 [sample1] nan_rate_cfg zero_rng 0
     = Some (Inr (nan_net, 0, [\<lparr>epoch = 0, loss = Num 0, accuracy = Num 1\<rparr>]))"
proof -
  have ts: "train_sample net1 [sample1] 0
              ([\<lparr>rows = 1, cols = 1, data = [Num 0]\<rparr>], [\<lparr>rows = 1, cols = 1, data = [Num 0]\<rparr>], 0, 0)
          = Inr ([\<lparr>rows = 1, cols = 1, data = [Num 0]\<rparr>], [\<lparr>rows = 1, cols = 1, data = [Num 0]\<rparr>],
                 Num 0, 1)"
    by (simp add: train_sample_def nth_opt_def sample1_def x1 backward_net1 predict_net1
          argmax_pair_def accumulate_step_def add_def f64_get_def f64_set_def zero_jsnum_def
          del: One_nat_def) simp
  have ab: "accumulate_batch net1 [sample1] [0] (0, 0)
          = Inr ([\<lparr>rows = 1, cols = 1, data = [Num 0]\<rparr>], [\<lparr>rows = 1, cols = 1, data = [Num 0]\<rparr>],
                 Num 0, 1)"
    using ts by (simp add: accumulate_batch_def net1_def zeros_def zero_jsnum_def)
  have tb: "train_batch [sample1] [0] NaN (net1, 0, 0) = Inr (nan_net, Num 0, 1)"
    by (simp add: train_batch_def ab)
       (simp add: net1_def nan_net_def update_step_def sub_def scale_def
          f64_get_def f64_set_def zero_jsnum_def minus_jsnum_def Let_def)
  have "train_batches [sample1] [0] 1 NaN 0 (net1, 0, 0) = Some (Inr (nan_net, Num 0, 1))"
    using tb by (simp add: train_batches_step train_batches_done)
  then show ?thesis
    by (simp add: train_def train_epoch_def nan_rate_cfg_def Let_def)
qed

text \<open>
  The claim C6 as stated fails on a network with a NaN parameter, such as training with
  a NaN learning rate produces: the text written by \<^verbatim>\<open>save\<close> has \<^verbatim>\<open>null\<close> in
  its place, which \<^verbatim>\<open>load\<close> reads as 0, and the prediction changes from NaN to 1.
\<close>

theorem save_load_nan:
  "train net1 [sample1] nan_rate_cfg zero_rng 0
     = Some (Inr (nan_net, 0, [\<lparr>epoch = 0, loss = Num 0, accuracy = Num 1\<rparr>]))
   \<and> load (save nan_net) zero_rng 0 = Inr (reloaded_net, 1)
   \<and> predict nan_net (fromArray [Num 0]) = Inr \<lparr>rows = 1, cols = 1, data = [NaN]\<rparr>
   \<and> predict reloaded_net (fromArray [Num 0]) = Inr \<lparr>rows = 1, cols = 1, data = [Num 1]\<rparr>
   \<and> \<not> agree NaN (Num 1)"
proof -
  have l: "load (save nan_net) zero_rng 0 = Inr (reloaded_net, 1)"
    unfolding load_eq fromJSON_eq Network_def Network_loop
    by (simp add: save_def nan_net_def reloaded_net_def toJSON_def zero_jsnum_def offset_def)
  have x: "fromArray [Num 0] = \<lparr>rows = 1, cols = 1, data = [Num 0]\<rparr>"
    by (simp add: fromArray_def f64_set_def zero_jsnum_def)
  have p1: "predict nan_net (fromArray [Num 0]) = Inr \<lparr>rows = 1, cols = 1, data = [NaN]\<rparr>"
    unfolding x
    by (simp add: predict_def forward_def forward_step_def nan_net_def add_arg_def nth_opt_def
          mul_def mul_entry_def add_def softmax_def softmax_max_def softmax_exp_def
          f64_get_def f64_set_def zero_jsnum_def minus_jsnum_def Let_def)
  have p2: "predict reloaded_net (fromArray [Num 0]) = Inr \<lparr>rows = 1, cols = 1, data = [Num 1]\<rparr>"
    unfolding x
    by (simp add: predict_def forward_def forward_step_def reloaded_net_def add_arg_def nth_opt_def
          mul_def mul_entry_def add_def softmax_def softmax_max_def softmax_exp_def
          f64_get_def f64_set_def zero_jsnum_def minus_jsnum_def Let_def)
  have "\<not> agree NaN (Num 1)"
    by (simp add: agree_def minus_jsnum_def)
  with train_nan l p1 p2 show ?thesis by blast
qed

section \<open>What a pass leaves unchanged\<close>

lemma wr_fresh: "wr (h @ [d]) (length h) i v = h @ [f64_set d i v]"
  by (simp add: wr_def)

lemma loop_fresh:
  "fold (\<lambda>i H. wr H (length h) (idx i) (g i H)) xs (h @ [d])
     = h @ [fold (\<lambda>i d. f64_set d (idx i) (g i (h @ [d]))) xs d]"
  by (induction xs arbitrary: d) (simp_all add: wr_fresh)

lemma nested_fresh:
  "fold (\<lambda>i H. fold (\<lambda>j H. wr H (length h) (idx i j) (g i j H)) (ys i) H) xs (h @ [d])
     = h @ [fold (\<lambda>i d. fold (\<lambda>j d. f64_set d (idx i j) (g i j (h @ [d]))) (ys i) d) xs d]"
  by (induction xs arbitrary: d) (simp_all add: loop_fresh)

lemma pair_fresh:
  "fold (\<lambda>i (H, s). (wr H (length h) i (e i H),
                      s + rd (wr H (length h) i (e i H)) (length h) i))
        xs (h @ [d], s0)
     = (h @ [fst (fold (\<lambda>i (d, s). (f64_set d i (e i (h @ [d])),
                                     s + f64_get (f64_set d i (e i (h @ [d]))) i))
                       xs (d, s0))],
        snd (fold (\<lambda>i (d, s). (f64_set d i (e i (h @ [d])),
                                s + f64_get (f64_set d i (e i (h @ [d]))) i))
                  xs (d, s0)))"
  by (induction xs arbitrary: d s0) (simp_all add: wr_fresh rd_def buf_def)

lemma grows_refl [simp]: "grows h h"
  by (simp add: grows_def)

lemma grows_trans: "grows h h1 \<Longrightarrow> grows h1 h2 \<Longrightarrow> grows h h2"
  by (auto simp: grows_def)

lemma grows_one [simp]: "grows h (h @ [d])"
  by (simp add: grows_def)

lemma add_h_grows: "grows h (snd (add_h this other h))"
  by (simp add: add_h_def alloc_Matrix_def loop_fresh)

lemma sub_h_grows: "grows h (snd (sub_h this other h))"
  by (simp add: sub_h_def alloc_Matrix_def loop_fresh)

lemma hadamard_h_grows: "grows h (snd (hadamard_h this other h))"
  by (simp add: hadamard_h_def alloc_Matrix_def loop_fresh)

lemma map_h_grows: "grows h (snd (map_h this f h))"
  by (simp add: map_h_def alloc_Matrix_def loop_fresh)

lemma mul_h_grows: "grows h (snd (mul_h this other h))"
  by (simp add: mul_h_def alloc_Matrix_def nested_fresh)

lemma transpose_h_grows: "grows h (snd (transpose_h this h))"
  by (simp add: transpose_h_def alloc_Matrix_def nested_fresh)

lemma clone_h_grows: "grows h (snd (clone_h this h))"
  by (simp add: clone_h_def)

lemma softmax_h_grows: "grows h (snd (softmax_h vec h))"
  by (simp add: softmax_h_def alloc_Matrix_def pair_fresh loop_fresh Let_def split: prod.splits)

lemma add_arg_h_grows: "grows h (snd (add_arg_h this other h))"
proof (cases other)
  case None
  then show ?thesis
    by (simp add: add_arg_h_def alloc_Matrix_def)
next
  case (Some b)
  with add_h_grows [of h this b] show ?thesis
    by (auto simp: add_arg_h_def split: prod.splits)
qed

lemma forward_step_h_frame:
  "\<exists>r h'. forward_step_h i st (this, h) = (r, this, h') \<and> grows h h'"
proof -
  obtain zs as a where st: "st = (zs, as, a)" by (cases st)
  obtain p h1 where m: "mul_h (o_weights this ! i) a h = (p, h1)"
    by (cases "mul_h (o_weights this ! i) a h")
  with mul_h_grows [of h "o_weights this ! i" a] have g1: "grows h h1" by simp
  obtain r2 h2 where ad: "add_arg_h p (nth_opt (o_biases this) i) h1 = (r2, h2)"
    by (cases "add_arg_h p (nth_opt (o_biases this) i) h1")
  with add_arg_h_grows [of h1 p "nth_opt (o_biases this) i"] have "grows h1 h2" by simp
  with g1 have g2: "grows h h2" by (rule grows_trans)
  show ?thesis
  proof (cases r2)
    case (Inl e)
    with st m ad g2 show ?thesis
      by (simp add: forward_step_h_def)
  next
    case (Inr z)
    have mp: "\<exists>a1 h3. map_h z f h2 = (a1, h3) \<and> grows h h3" for f
      using map_h_grows [of h2 z f] g2
      by (metis grows_trans prod.collapse)
    obtain a2 h4 where sm: "softmax_h z h2 = (a2, h4)" by (cases "softmax_h z h2")
    with softmax_h_grows [of h2 z] g2 have g4: "grows h h4"
      using grows_trans by fastforce
    show ?thesis
    proof (cases "i < length (o_weights this) - 1")
      case False
      with st m ad Inr sm g4 show ?thesis
        by (simp add: forward_step_h_def)
    next
      case True
      show ?thesis
      proof (cases "activations (o_hiddenActivation this)")
        case None
        with True st m ad Inr g2 show ?thesis
          by (simp add: forward_step_h_def)
      next
        case (Some act)
        from mp [of "\<lambda>x i. fn act x"] obtain a1 h3 where
          "map_h z (\<lambda>x i. fn act x) h2 = (a1, h3)" "grows h h3" by blast
        with True Some st m ad Inr show ?thesis
          by (simp add: forward_step_h_def)
      qed
    qed
  qed
qed

lemma forward_loop_h_frame:
  "\<exists>r h'. fold (\<lambda>i (st, s). case st of Inl e \<Rightarrow> (Inl e, s) | Inr t \<Rightarrow> forward_step_h i t s)
                xs (r0, this, h) = (r, this, h') \<and> grows h h'"
proof (induction xs arbitrary: r0 h)
  case Nil
  then show ?case by simp
next
  case (Cons i xs)
  show ?case
  proof (cases r0)
    case (Inl e)
    with Cons.IH [of "Inl e" h] show ?thesis by simp
  next
    case (Inr t)
    from forward_step_h_frame [of i t this h] obtain r h1 where
      s: "forward_step_h i t (this, h) = (r, this, h1)" and g: "grows h h1" by blast
    from Cons.IH [of r h1] obtain r' h' where
      "fold (\<lambda>i (st, s). case st of Inl e \<Rightarrow> (Inl e, s) | Inr t \<Rightarrow> forward_step_h i t s)
                xs (r, this, h1) = (r', this, h')" "grows h1 h'" by blast
    with s g Inr show ?thesis
      by (auto intro: grows_trans)
  qed
qed

lemma forward_h_frame:
  "\<exists>r h'. forward_h input (this, h) = (r, this, h') \<and> grows h h'"
proof -
  from forward_loop_h_frame [of "[0..<length (o_weights this)]" "Inr ([], [input], input)" this h]
  obtain r h' where
    "fold (\<lambda>i (st, s). case st of Inl e \<Rightarrow> (Inl e, s) | Inr t \<Rightarrow> forward_step_h i t s)
                [0..<length (o_weights this)] (Inr ([], [input], input), this, h) = (r, this, h')"
    "grows h h'" by blast
  then show ?thesis
    by (cases r) (auto simp: forward_h_def)
qed

lemma predict_h_frame:
  "\<exists>r h'. predict_h input (this, h) = (r, this, h') \<and> grows h h'"
proof -
  from forward_h_frame [of input this h] obtain r h' where
    "forward_h input (this, h) = (r, this, h')" "grows h h'" by blast
  then show ?thesis
    by (cases r) (auto simp: predict_h_def)
qed

lemma transpose_h_step:
  "grows h h0 \<Longrightarrow> \<exists>r h1. transpose_h m h0 = (r, h1) \<and> grows h h1"
  using transpose_h_grows [of h0 m] by (metis grows_trans prod.collapse)

lemma mul_h_step:
  "grows h h0 \<Longrightarrow> \<exists>r h1. mul_h a b h0 = (r, h1) \<and> grows h h1"
  using mul_h_grows [of h0 a b] by (metis grows_trans prod.collapse)

lemma clone_h_step:
  "grows h h0 \<Longrightarrow> \<exists>r h1. clone_h m h0 = (r, h1) \<and> grows h h1"
  using clone_h_grows [of h0 m] by (metis grows_trans prod.collapse)

lemma map_h_step:
  "grows h h0 \<Longrightarrow> \<exists>r h1. map_h m f h0 = (r, h1) \<and> grows h h1"
  using map_h_grows [of h0 m f] by (metis grows_trans prod.collapse)

lemma hadamard_h_step:
  "grows h h0 \<Longrightarrow> \<exists>r h1. hadamard_h a b h0 = (r, h1) \<and> grows h h1"
  using hadamard_h_grows [of h0 a b] by (metis grows_trans prod.collapse)

lemma sub_h_step:
  "grows h h0 \<Longrightarrow> \<exists>r h1. sub_h a b h0 = (r, h1) \<and> grows h h1"
  using sub_h_grows [of h0 a b] by (metis grows_trans prod.collapse)

lemma backward_step_h_frame:
  "\<exists>r h'. backward_step_h zs as i st (this, h) = (r, this, h') \<and> grows h h'"
proof -
  obtain dw db delta where st: "st = (dw, db, delta)" by (cases st)
  have g0: "grows h h" by simp
  from transpose_h_step [OF g0, of "as ! i"] obtain t h1 where
    o1: "transpose_h (as ! i) h = (t, h1)" and g1: "grows h h1" by blast
  from mul_h_step [OF g1, of delta t] obtain g h2 where
    o2: "mul_h delta t h1 = (g, h2)" and g2: "grows h h2" by blast
  from clone_h_step [OF g2, of delta] obtain c h3 where
    o3: "clone_h delta h2 = (c, h3)" and g3: "grows h h3" by blast
  show ?thesis
  proof (cases "0 < i")
    case False
    with st o1 o2 o3 g3 show ?thesis
      by (simp add: backward_step_h_def)
  next
    case True
    show ?thesis
    proof (cases "activations (o_hiddenActivation this)")
      case None
      with True st o1 o2 o3 g3 show ?thesis
        by (simp add: backward_step_h_def)
    next
      case (Some act)
      from map_h_step [OF g3, of "zs ! (i - 1)" "\<lambda>x i. dfn act x"] obtain dAct h4 where
        o4: "map_h (zs ! (i - 1)) (\<lambda>x i. dfn act x) h3 = (dAct, h4)" and g4: "grows h h4"
        by blast
      from transpose_h_step [OF g4, of "o_weights this ! i"] obtain wt h5 where
        o5: "transpose_h (o_weights this ! i) h4 = (wt, h5)" and g5: "grows h h5" by blast
      from mul_h_step [OF g5, of wt delta] obtain q h6 where
        o6: "mul_h wt delta h5 = (q, h6)" and g6: "grows h h6" by blast
      from hadamard_h_step [OF g6, of q dAct] obtain d' h7 where
        o7: "hadamard_h q dAct h6 = (d', h7)" and g7: "grows h h7" by blast
      from True Some st o1 o2 o3 o4 o5 o6 o7 g7 show ?thesis
        by (simp add: backward_step_h_def)
    qed
  qed
qed

lemma backward_loop_h_frame:
  "\<exists>r h'. fold (\<lambda>i (st, s). case st of Inl e \<Rightarrow> (Inl e, s)
                                       | Inr t \<Rightarrow> backward_step_h zs as i t s)
                xs (r0, this, h) = (r, this, h') \<and> grows h h'"
proof (induction xs arbitrary: r0 h)
  case Nil
  then show ?case by simp
next
  case (Cons i xs)
  show ?case
  proof (cases r0)
    case (Inl e)
    with Cons.IH [of "Inl e" h] show ?thesis by simp
  next
    case (Inr t)
    from backward_step_h_frame [of zs as i t this h] obtain r h1 where
      s: "backward_step_h zs as i t (this, h) = (r, this, h1)" and g: "grows h h1" by blast
    from Cons.IH [of r h1] obtain r' h' where
      "fold (\<lambda>i (st, s). case st of Inl e \<Rightarrow> (Inl e, s)
                                       | Inr t \<Rightarrow> backward_step_h zs as i t s)
                xs (r, this, h1) = (r', this, h')" "grows h1 h'" by blast
    with s g Inr show ?thesis
      by (auto intro: grows_trans)
  qed
qed

lemma backward_h_frame:
  "\<exists>r h'. backward_h input target (this, h) = (r, this, h') \<and> grows h h'"
proof -
  from forward_h_frame [of input this h] obtain r h0 where
    fw: "forward_h input (this, h) = (r, this, h0)" and g0: "grows h h0" by blast
  show ?thesis
  proof (cases r)
    case (Inl e)
    with fw g0 show ?thesis by (simp add: backward_h_def)
  next
    case (Inr tr)
    obtain zs as where tr: "tr = (zs, as)" by (cases tr)
    from sub_h_step [OF g0, of "as ! length (o_weights this)" target] obtain delta h1 where
      o1: "sub_h (as ! length (o_weights this)) target h0 = (delta, h1)"
      and g1: "grows h h1" by blast
    from backward_loop_h_frame [of zs as "rev [0..<length (o_weights this)]"
        "Inr ([], [], delta)" this h1]
    obtain r' h' where
      lp: "fold (\<lambda>i (st, s). case st of Inl e \<Rightarrow> (Inl e, s)
                                       | Inr t \<Rightarrow> backward_step_h zs as i t s)
                (rev [0..<length (o_weights this)]) (Inr ([], [], delta), this, h1)
             = (r', this, h')"
      and g': "grows h1 h'" by blast
    from g1 g' have "grows h h'" by (rule grows_trans)
    with fw Inr tr o1 lp show ?thesis
      by (cases r') (auto simp: backward_h_def Let_def)
  qed
qed

text \<open>
  Claim C10. For every network, store, input and target, \<^verbatim>\<open>forward\<close>,
  \<^verbatim>\<open>predict\<close> and \<^verbatim>\<open>backward\<close>, whether they return or raise, leave the network
  object as it was (\<^verbatim>\<open>layerSizes\<close>, \<^verbatim>\<open>hiddenActivation\<close> and the two arrays
  of matrices) and leave every buffer that existed before the call as it was, so every
  entry of every weight matrix and bias vector: the store after the call is the store
  before it followed by the buffers the call created. \<^verbatim>\<open>save\<close> changes nothing at
  all. The two remaining operations, \<^verbatim>\<open>train\<close> and \<^verbatim>\<open>load\<close>, are the ones
  that assign parameters.
\<close>

theorem network_unchanged:
  "(\<exists>r new. forward_h input (this, h) = (r, this, h @ new))
   \<and> (\<exists>r new. predict_h input (this, h) = (r, this, h @ new))
   \<and> (\<exists>r new. backward_h input target (this, h) = (r, this, h @ new))
   \<and> (\<exists>r. save_h (this, h) = (r, this, h))"
  using forward_h_frame [of input this h] predict_h_frame [of input this h]
    backward_h_frame [of input target this h]
  by (auto simp: grows_def save_h_def)

section \<open>The passes on the store compute what the passes on matrices compute\<close>

lemma rd_old [simp]: "a < length h \<Longrightarrow> rd (h @ new) a i = f64_get (buf h a) i"
  by (simp add: rd_def buf_def nth_append)

lemma buf_old [simp]: "a < length h \<Longrightarrow> buf (h @ new) a = buf h a"
  by (simp add: buf_def nth_append)

lemma buf_new [simp]: "buf (h @ [d]) (length h) = d"
  by (simp add: buf_def)

lemma deref_old: "valid h r \<Longrightarrow> deref (h @ new) r = deref h r"
  by (simp add: deref_def valid_def)

lemma valid_old: "valid h r \<Longrightarrow> valid (h @ new) r"
  by (simp add: valid_def)

lemma add_h_eq:
  assumes "valid h this" "valid h other"
  shows "add_h this other h
         = (\<lparr>ref_rows = ref_rows this, ref_cols = ref_cols this, ref_data = length h\<rparr>,
            h @ [data (add (deref h this) (deref h other))])"
  using assms
  by (simp add: add_h_def alloc_Matrix_def loop_fresh add_def deref_def valid_def Let_def)

lemma sub_h_eq:
  assumes "valid h this" "valid h other"
  shows "sub_h this other h
         = (\<lparr>ref_rows = ref_rows this, ref_cols = ref_cols this, ref_data = length h\<rparr>,
            h @ [data (sub (deref h this) (deref h other))])"
  using assms
  by (simp add: sub_h_def alloc_Matrix_def loop_fresh sub_def deref_def valid_def Let_def)

lemma hadamard_h_eq:
  assumes "valid h this" "valid h other"
  shows "hadamard_h this other h
         = (\<lparr>ref_rows = ref_rows this, ref_cols = ref_cols this, ref_data = length h\<rparr>,
            h @ [data (hadamard (deref h this) (deref h other))])"
  using assms
  by (simp add: hadamard_h_def alloc_Matrix_def loop_fresh hadamard_def deref_def valid_def Let_def)

lemma map_h_eq:
  assumes "valid h this"
  shows "map_h this f h
         = (\<lparr>ref_rows = ref_rows this, ref_cols = ref_cols this, ref_data = length h\<rparr>,
            h @ [data (map_m (deref h this) f)])"
  using assms
  by (simp add: map_h_def alloc_Matrix_def loop_fresh map_m_def deref_def valid_def Let_def)

lemma mul_h_eq:
  assumes "valid h this" "valid h other"
  shows "mul_h this other h
         = (\<lparr>ref_rows = ref_rows this, ref_cols = ref_cols other, ref_data = length h\<rparr>,
            h @ [data (mul (deref h this) (deref h other))])"
  using assms
  by (simp add: mul_h_def alloc_Matrix_def nested_fresh mul_def mul_entry_def deref_def
        valid_def Let_def)

lemma transpose_h_eq:
  assumes "valid h this"
  shows "transpose_h this h
         = (\<lparr>ref_rows = ref_cols this, ref_cols = ref_rows this, ref_data = length h\<rparr>,
            h @ [data (transpose_m (deref h this))])"
  using assms
  by (simp add: transpose_h_def alloc_Matrix_def nested_fresh transpose_m_def deref_def
        valid_def Let_def)

lemma clone_h_eq:
  "clone_h this h
         = (\<lparr>ref_rows = ref_rows this, ref_cols = ref_cols this, ref_data = length h\<rparr>,
            h @ [data (clone (deref h this))])"
  by (simp add: clone_h_def deref_def)

lemma crossEntropyLoss_h_eq:
  assumes "valid h predicted" "valid h target"
  shows "crossEntropyLoss_h predicted target h
           = crossEntropyLoss (deref h predicted) (deref h target)"
  using assms
  by (simp add: crossEntropyLoss_h_def crossEntropyLoss_def deref_def valid_def rd_def
        cong: if_cong)

lemma rd_new [simp]: "rd (h @ [d]) (length h) i = f64_get d i"
  by (simp add: rd_def)

lemma softmax_h_eq:
  assumes "valid h vec"
  shows "softmax_h vec h
         = (\<lparr>ref_rows = ref_rows vec, ref_cols = 1, ref_data = length h\<rparr>,
            h @ [data (softmax (deref h vec))])"
proof -
  let ?n = "ref_rows vec"
  let ?d0 = "replicate (?n * 1) (0::jsnum)"
  let ?v = "deref h vec"
  from assms have a: "ref_data vec < length h" by (simp add: valid_def)
  have mx: "fold (\<lambda>i m. if js_gt (rd (h @ [?d0]) (ref_data vec) i) m
                          then rd (h @ [?d0]) (ref_data vec) i else m)
                 [0..<?n] NegInf = softmax_max ?v"
    using a by (simp add: softmax_max_def deref_def cong: if_cong)
  obtain d1 s1 where p: "softmax_exp ?v (softmax_max ?v) ?d0 = (d1, s1)"
    by (cases "softmax_exp ?v (softmax_max ?v) ?d0")
  have ex: "fold (\<lambda>i (H, s).
                    let H' = wr H (length h) i
                               (js_exp (rd H (ref_data vec) i - softmax_max ?v))
                    in (H', s + rd H' (length h) i))
                 [0..<?n] (h @ [?d0], 0) = (h @ [d1], s1)"
    using a p
    by (simp add: Let_def pair_fresh softmax_exp_def deref_def)
  have dv: "fold (\<lambda>i H. wr H (length h) i (js_div (rd H (length h) i) s1)) [0..<?n] (h @ [d1])
          = h @ [fold (\<lambda>i d. f64_set d i (js_div (f64_get d i) s1)) [0..<?n] d1]"
    by (simp add: loop_fresh)
  have pure: "data (softmax ?v)
          = fold (\<lambda>i d. f64_set d i (js_div (f64_get d i) s1)) [0..<?n] d1"
    using p by (simp add: softmax_def Let_def deref_def)
  show ?thesis
    unfolding softmax_h_def alloc_Matrix_def Let_def prod.case mx
    using ex dv pure by (simp add: Let_def)
qed

lemma sim_old: "sim h r m \<Longrightarrow> sim (h @ new) r m"
  by (simp add: sim_def valid_old deref_old)

lemma sim_grows: "grows h h' \<Longrightarrow> sim h r m \<Longrightarrow> sim h' r m"
  by (auto simp: grows_def sim_old)

lemma sims_grows: "grows h h' \<Longrightarrow> list_all2 (sim h) rs ms \<Longrightarrow> list_all2 (sim h') rs ms"
  by (erule list_all2_mono) (rule sim_grows)

lemma sim_fresh:
  "r = \<lparr>ref_rows = rows m, ref_cols = cols m, ref_data = length h\<rparr>
     \<Longrightarrow> sim (h @ [data m]) r m"
  by (simp add: sim_def valid_def deref_def)

lemma mul_h_sim:
  assumes "sim h this A" "sim h other B"
  shows "\<exists>r. mul_h this other h = (r, h @ [data (mul A B)])
           \<and> sim (h @ [data (mul A B)]) r (mul A B)"
proof -
  from assms have v: "valid h this" "valid h other"
    and d: "deref h this = A" "deref h other = B"
    by (simp_all add: sim_def)
  have s: "ref_rows this = rows A" "ref_cols other = cols B"
    using d by (auto simp: deref_def)
  show ?thesis
    using mul_h_eq [OF v] by (simp add: d s sim_fresh mul_shape)
qed

lemma add_h_sim:
  assumes "sim h this A" "sim h other B"
  shows "\<exists>r. add_h this other h = (r, h @ [data (add A B)])
           \<and> sim (h @ [data (add A B)]) r (add A B)"
proof -
  from assms have v: "valid h this" "valid h other"
    and d: "deref h this = A" "deref h other = B"
    by (simp_all add: sim_def)
  have s: "ref_rows this = rows A" "ref_cols this = cols A"
    using d by (auto simp: deref_def)
  show ?thesis
    using add_h_eq [OF v] by (simp add: d s sim_fresh add_shape)
qed

lemma sub_h_sim:
  assumes "sim h this A" "sim h other B"
  shows "\<exists>r. sub_h this other h = (r, h @ [data (sub A B)])
           \<and> sim (h @ [data (sub A B)]) r (sub A B)"
proof -
  from assms have v: "valid h this" "valid h other"
    and d: "deref h this = A" "deref h other = B"
    by (simp_all add: sim_def)
  have s: "ref_rows this = rows A" "ref_cols this = cols A"
    using d by (auto simp: deref_def)
  show ?thesis
    using sub_h_eq [OF v] by (simp add: d s sim_fresh sub_shape)
qed

lemma hadamard_h_sim:
  assumes "sim h this A" "sim h other B"
  shows "\<exists>r. hadamard_h this other h = (r, h @ [data (hadamard A B)])
           \<and> sim (h @ [data (hadamard A B)]) r (hadamard A B)"
proof -
  from assms have v: "valid h this" "valid h other"
    and d: "deref h this = A" "deref h other = B"
    by (simp_all add: sim_def)
  have s: "ref_rows this = rows A" "ref_cols this = cols A"
    using d by (auto simp: deref_def)
  show ?thesis
    using hadamard_h_eq [OF v] by (simp add: d s sim_fresh hadamard_shape)
qed

lemma map_h_sim:
  assumes "sim h this A"
  shows "\<exists>r. map_h this f h = (r, h @ [data (map_m A f)])
           \<and> sim (h @ [data (map_m A f)]) r (map_m A f)"
proof -
  from assms have v: "valid h this" and d: "deref h this = A"
    by (simp_all add: sim_def)
  have s: "ref_rows this = rows A" "ref_cols this = cols A"
    using d by (auto simp: deref_def)
  show ?thesis
    using map_h_eq [OF v, of f] by (simp add: d s sim_fresh map_m_shape)
qed

lemma transpose_h_sim:
  assumes "sim h this A"
  shows "\<exists>r. transpose_h this h = (r, h @ [data (transpose_m A)])
           \<and> sim (h @ [data (transpose_m A)]) r (transpose_m A)"
proof -
  from assms have v: "valid h this" and d: "deref h this = A"
    by (simp_all add: sim_def)
  have s: "ref_rows this = rows A" "ref_cols this = cols A"
    using d by (auto simp: deref_def)
  show ?thesis
    using transpose_h_eq [OF v] by (simp add: d s sim_fresh transpose_m_shape)
qed

lemma softmax_h_sim:
  assumes "sim h this A"
  shows "\<exists>r. softmax_h this h = (r, h @ [data (softmax A)])
           \<and> sim (h @ [data (softmax A)]) r (softmax A)"
proof -
  from assms have v: "valid h this" and d: "deref h this = A"
    by (simp_all add: sim_def)
  have s: "ref_rows this = rows A" "ref_cols this = cols A"
    using d by (auto simp: deref_def)
  show ?thesis
    using softmax_h_eq [OF v] by (simp add: d s sim_fresh softmax_shape)
qed

lemma clone_h_sim:
  assumes "sim h this A"
  shows "\<exists>r. clone_h this h = (r, h @ [data A]) \<and> sim (h @ [data A]) r A"
proof -
  from assms have d: "deref h this = A"
    by (simp_all add: sim_def)
  have s: "ref_rows this = rows A" "ref_cols this = cols A"
    using d by (auto simp: deref_def)
  show ?thesis
    using clone_h_eq [of this h] by (simp add: d s sim_fresh)
qed

lemma add_arg_h_sim:
  assumes "sim h this A" "rel_option (sim h) other B"
  shows "\<exists>r h'. add_arg_h this other h = (r, h') \<and> grows h h'
           \<and> rel_sum (=) (sim h') r (add_arg A B)"
proof (cases other)
  case None
  with assms(2) have B: "B = None" by simp
  from assms(1) have v: "ref_data this < length h" and d: "deref h this = A"
    by (simp_all add: sim_def valid_def)
  have s: "ref_rows this = rows A" "ref_cols this = cols A" "buf h (ref_data this) = data A"
    using d by (auto simp: deref_def)
  let ?m = "Matrix (rows A) (cols A) NoData"
  have "sim (h @ [data ?m]) \<lparr>ref_rows = rows ?m, ref_cols = cols ?m, ref_data = length h\<rparr> ?m"
    by (rule sim_fresh) simp
  then show ?thesis
    using v by (simp add: add_arg_h_def add_arg_def None B alloc_Matrix_def s)
next
  case (Some b)
  with assms(2) obtain Bm where B: "B = Some Bm" and sb: "sim h b Bm"
    by (cases B) simp_all
  from add_h_sim [OF assms(1) sb] obtain r where
    "add_h this b h = (r, h @ [data (add A Bm)])" "sim (h @ [data (add A Bm)]) r (add A Bm)"
    by blast
  then show ?thesis
    by (simp add: add_arg_h_def add_arg_def Some B)
qed

lemma sim_net_grows: "grows h h' \<Longrightarrow> sim_net h this net \<Longrightarrow> sim_net h' this net"
  by (simp add: sim_net_def sims_grows)

lemma sim_state_grows: "grows h h' \<Longrightarrow> sim_state h st pst \<Longrightarrow> sim_state h' st pst"
  by (cases st; cases pst) (simp add: sims_grows sim_grows)

lemma nth_opt_sim:
  "list_all2 (sim h) rs ms \<Longrightarrow> rel_option (sim h) (nth_opt rs i) (nth_opt ms i)"
  by (auto simp: nth_opt_def list_all2_lengthD list_all2_nthD)

lemma forward_step_h_sim:
  assumes "sim_net h this net" "i < length (weights net)" "sim_state h st pst"
  shows "\<exists>r h'. forward_step_h i st (this, h) = (r, this, h') \<and> grows h h'
           \<and> rel_sum (=) (sim_state h') r (forward_step net i pst)"
proof -
  obtain zs as a where st: "st = (zs, as, a)" by (cases st)
  obtain pzs pas pa where pst: "pst = (pzs, pas, pa)" by (cases pst)
  from assms(3) st pst have szs: "list_all2 (sim h) zs pzs" and sas: "list_all2 (sim h) as pas"
    and sa: "sim h a pa" by simp_all
  from assms(1) have ws: "list_all2 (sim h) (o_weights this) (weights net)"
    and bs: "list_all2 (sim h) (o_biases this) (biases net)"
    and act: "o_hiddenActivation this = hiddenActivation net"
    by (simp_all add: sim_net_def)
  from ws have lw: "length (o_weights this) = length (weights net)"
    by (rule list_all2_lengthD)
  from ws assms(2) have sw: "sim h (o_weights this ! i) (weights net ! i)"
    by (simp add: list_all2_nthD2)
  let ?P = "mul (weights net ! i) pa"
  from mul_h_sim [OF sw sa] obtain p where
    m: "mul_h (o_weights this ! i) a h = (p, h @ [data ?P])"
    and sp: "sim (h @ [data ?P]) p ?P" by blast
  let ?h1 = "h @ [data ?P]"
  have g1: "grows h ?h1" by simp
  have "rel_option (sim ?h1) (nth_opt (o_biases this) i) (nth_opt (biases net) i)"
    by (rule nth_opt_sim) (rule sims_grows [OF g1 bs])
  from add_arg_h_sim [OF sp this] obtain r2 h2 where
    ad: "add_arg_h p (nth_opt (o_biases this) i) ?h1 = (r2, h2)" and g12: "grows ?h1 h2"
    and rel: "rel_sum (=) (sim h2) r2 (add_arg ?P (nth_opt (biases net) i))"
    by blast
  from g1 g12 have g2: "grows h h2" by (rule grows_trans)
  show ?thesis
  proof (cases r2)
    case (Inl e)
    with rel have "add_arg ?P (nth_opt (biases net) i) = Inl e"
      by (cases "add_arg ?P (nth_opt (biases net) i)") simp_all
    with Inl st pst m ad g2 show ?thesis
      by (simp add: forward_step_h_def forward_step_def)
  next
    case (Inr z)
    with rel obtain pz where pa: "add_arg ?P (nth_opt (biases net) i) = Inr pz"
      and sz: "sim h2 z pz"
      by (cases "add_arg ?P (nth_opt (biases net) i)") simp_all
    have szs2: "list_all2 (sim h2) zs pzs" and sas2: "list_all2 (sim h2) as pas"
      using szs sas g2 by (simp_all add: sims_grows)
    show ?thesis
    proof (cases "i < length (weights net) - 1")
      case False
      from softmax_h_sim [OF sz] obtain a' where
        sm: "softmax_h z h2 = (a', h2 @ [data (softmax pz)])"
        and sa': "sim (h2 @ [data (softmax pz)]) a' (softmax pz)" by blast
      let ?h3 = "h2 @ [data (softmax pz)]"
      have g23: "grows h2 ?h3" by simp
      with g2 have g3: "grows h ?h3" by (rule grows_trans)
      have "sim_state ?h3 (zs @ [z], as @ [a'], a') (pzs @ [pz], pas @ [softmax pz], softmax pz)"
        using sims_grows [OF g23 szs2] sims_grows [OF g23 sas2] sim_grows [OF g23 sz] sa'
        by (simp add: list_all2_appendI)
      with False st pst m ad Inr pa sm g3 lw show ?thesis
        by (simp add: forward_step_h_def forward_step_def Let_def)
    next
      case True
      show ?thesis
      proof (cases "activations (hiddenActivation net)")
        case None
        with True st pst m ad Inr pa g2 lw act show ?thesis
          by (simp add: forward_step_h_def forward_step_def)
      next
        case (Some f)
        let ?A = "map_m pz (\<lambda>x i. fn f x)"
        from map_h_sim [OF sz, of "\<lambda>x i. fn f x"] obtain a' where
          mp: "map_h z (\<lambda>x i. fn f x) h2 = (a', h2 @ [data ?A])"
          and sa': "sim (h2 @ [data ?A]) a' ?A" by blast
        let ?h3 = "h2 @ [data ?A]"
        have g23: "grows h2 ?h3" by simp
        with g2 have g3: "grows h ?h3" by (rule grows_trans)
        have "sim_state ?h3 (zs @ [z], as @ [a'], a') (pzs @ [pz], pas @ [?A], ?A)"
          using sims_grows [OF g23 szs2] sims_grows [OF g23 sas2] sim_grows [OF g23 sz] sa'
          by (simp add: list_all2_appendI)
        with True Some st pst m ad Inr pa mp g3 lw act show ?thesis
          by (simp add: forward_step_h_def forward_step_def Let_def)
      qed
    qed
  qed
qed

lemma forward_loop_h_sim:
  assumes "sim_net h this net" "\<forall>i\<in>set xs. i < length (weights net)"
    "rel_sum (=) (sim_state h) r0 p0"
  shows "\<exists>r h'. fold (\<lambda>i (st, s). case st of Inl e \<Rightarrow> (Inl e, s)
                                    | Inr t \<Rightarrow> forward_step_h i t s) xs (r0, this, h)
                  = (r, this, h')
           \<and> grows h h'
           \<and> rel_sum (=) (sim_state h') r
                (fold (\<lambda>i st. case st of Inl e \<Rightarrow> Inl e | Inr s \<Rightarrow> forward_step net i s) xs p0)"
  using assms
proof (induction xs arbitrary: r0 p0 h)
  case Nil
  then show ?case by simp
next
  case (Cons i xs)
  from Cons.prems have i: "i < length (weights net)"
    and rest: "\<forall>i\<in>set xs. i < length (weights net)" by simp_all
  show ?case
  proof (cases r0)
    case (Inl e)
    with Cons.prems(3) have p0: "p0 = Inl e" by (cases p0) simp_all
    from Cons.IH [OF Cons.prems(1) rest, of "Inl e" "Inl e"] Inl p0 show ?thesis by simp
  next
    case (Inr t)
    with Cons.prems(3) obtain pt where p0: "p0 = Inr pt" and s: "sim_state h t pt"
      by (cases p0) simp_all
    from forward_step_h_sim [OF Cons.prems(1) i s] obtain r h1 where
      st: "forward_step_h i t (this, h) = (r, this, h1)" and g: "grows h h1"
      and rel: "rel_sum (=) (sim_state h1) r (forward_step net i pt)" by blast
    from Cons.IH [OF sim_net_grows [OF g Cons.prems(1)] rest rel] obtain r' h' where
      "fold (\<lambda>i (st, s). case st of Inl e \<Rightarrow> (Inl e, s)
                                    | Inr t \<Rightarrow> forward_step_h i t s) xs (r, this, h1)
                  = (r', this, h')" "grows h1 h'"
      "rel_sum (=) (sim_state h') r'
                (fold (\<lambda>i st. case st of Inl e \<Rightarrow> Inl e | Inr s \<Rightarrow> forward_step net i s) xs
                   (forward_step net i pt))"
      by blast
    with st g Inr p0 show ?thesis
      by (auto intro: grows_trans)
  qed
qed

lemma forward_h_sim:
  assumes "sim_net h this net" "sim h input x"
  shows "\<exists>r h'. forward_h input (this, h) = (r, this, h') \<and> grows h h'
           \<and> rel_sum (=) (sim_trace h') r (forward net x)"
proof -
  from assms(1) have lw: "length (o_weights this) = length (weights net)"
    by (auto simp: sim_net_def dest: list_all2_lengthD)
  have r0: "rel_sum (=) (sim_state h) (Inr ([], [input], input)) (Inr ([], [x], x))"
    using assms(2) by simp
  have ix: "\<forall>i\<in>set [0..<length (weights net)]. i < length (weights net)" by simp
  from forward_loop_h_sim [OF assms(1) ix r0] obtain r h' where
    f: "fold (\<lambda>i (st, s). case st of Inl e \<Rightarrow> (Inl e, s)
                                    | Inr t \<Rightarrow> forward_step_h i t s)
          [0..<length (weights net)] (Inr ([], [input], input), this, h) = (r, this, h')"
    and g: "grows h h'"
    and rel: "rel_sum (=) (sim_state h') r
                (fold (\<lambda>i st. case st of Inl e \<Rightarrow> Inl e | Inr s \<Rightarrow> forward_step net i s)
                   [0..<length (weights net)] (Inr ([], [x], x)))"
    by blast
  show ?thesis
  proof (cases r)
    case (Inl e)
    with rel have "fold (\<lambda>i st. case st of Inl e \<Rightarrow> Inl e | Inr s \<Rightarrow> forward_step net i s)
                   [0..<length (weights net)] (Inr ([], [x], x)) = Inl e"
      by (cases "fold (\<lambda>i st. case st of Inl e \<Rightarrow> Inl e | Inr s \<Rightarrow> forward_step net i s)
                   [0..<length (weights net)] (Inr ([], [x], x))") simp_all
    with Inl f g show ?thesis
      by (simp add: forward_h_def forward_def lw)
  next
    case (Inr t)
    obtain zs as a where t: "t = (zs, as, a)" by (cases t)
    from Inr rel obtain pt where
      p: "fold (\<lambda>i st. case st of Inl e \<Rightarrow> Inl e | Inr s \<Rightarrow> forward_step net i s)
                   [0..<length (weights net)] (Inr ([], [x], x)) = Inr pt"
      and s: "sim_state h' t pt"
      by (cases "fold (\<lambda>i st. case st of Inl e \<Rightarrow> Inl e | Inr s \<Rightarrow> forward_step net i s)
                   [0..<length (weights net)] (Inr ([], [x], x))") simp_all
    obtain pzs pas pa where pt: "pt = (pzs, pas, pa)" by (cases pt)
    from Inr t f g p pt s show ?thesis
      by (simp add: forward_h_def forward_def lw)
  qed
qed

lemma forward_step_lengths:
  "forward_step net i (zs, as, a) = Inr (zs', as', a')
     \<Longrightarrow> length zs' = Suc (length zs) \<and> length as' = Suc (length as)"
  by (auto simp: forward_step_def Let_def split: sum.splits if_splits option.splits)

lemma forward_loop_Inl:
  "fold (\<lambda>i st. case st of Inl e \<Rightarrow> Inl e | Inr s \<Rightarrow> forward_step net i s) xs (Inl e) = Inl e"
  by (induction xs) simp_all

lemma forward_loop_lengths:
  "fold (\<lambda>i st. case st of Inl e \<Rightarrow> Inl e | Inr s \<Rightarrow> forward_step net i s) xs
        (Inr (zs, as, a)) = Inr (zs', as', a')
     \<Longrightarrow> length zs' = length zs + length xs \<and> length as' = length as + length xs"
proof (induction xs arbitrary: zs as a)
  case Nil
  then show ?case by simp
next
  case (Cons i xs)
  show ?case
  proof (cases "forward_step net i (zs, as, a)")
    case (Inl e)
    with Cons.prems show ?thesis by (simp add: forward_loop_Inl)
  next
    case (Inr t)
    obtain zs1 as1 a1 where t: "t = (zs1, as1, a1)" by (cases t)
    from Inr t forward_step_lengths [of net i zs as a zs1 as1 a1]
    have l: "length zs1 = Suc (length zs)" "length as1 = Suc (length as)" by simp_all
    from Cons.prems Inr t have
      "fold (\<lambda>i st. case st of Inl e \<Rightarrow> Inl e | Inr s \<Rightarrow> forward_step net i s) xs
        (Inr (zs1, as1, a1)) = Inr (zs', as', a')" by simp
    from Cons.IH [OF this] l show ?thesis by simp
  qed
qed

lemma forward_lengths:
  assumes "forward net x = Inr (zs, as)"
  shows "length zs = length (weights net) \<and> length as = Suc (length (weights net))"
proof -
  from assms obtain a where
    "fold (\<lambda>i st. case st of Inl e \<Rightarrow> Inl e | Inr s \<Rightarrow> forward_step net i s)
        [0..<length (weights net)] (Inr ([], [x], x)) = Inr (zs, as, a)"
    by (auto simp: forward_def split: sum.splits)
  from forward_loop_lengths [OF this] show ?thesis by simp
qed

lemma predict_h_sim:
  assumes "sim_net h this net" "sim h input x"
  shows "\<exists>r h'. predict_h input (this, h) = (r, this, h') \<and> grows h h'
           \<and> rel_sum (=) (sim h') r (predict net x)"
proof -
  from forward_h_sim [OF assms] obtain r h' where
    f: "forward_h input (this, h) = (r, this, h')" and g: "grows h h'"
    and rel: "rel_sum (=) (sim_trace h') r (forward net x)" by blast
  show ?thesis
  proof (cases r)
    case (Inl e)
    with rel have "forward net x = Inl e" by (cases "forward net x") simp_all
    with Inl f g show ?thesis by (simp add: predict_h_def predict_def)
  next
    case (Inr t)
    obtain zs as where t: "t = (zs, as)" by (cases t)
    from Inr rel obtain pt where p: "forward net x = Inr pt" and s: "sim_trace h' t pt"
      by (cases "forward net x") simp_all
    obtain pzs pas where pt: "pt = (pzs, pas)" by (cases pt)
    from s t pt have sas: "list_all2 (sim h') as pas" by simp
    from forward_lengths [of net x pzs pas] p pt have "length pas = Suc (length (weights net))"
      by simp
    with sas have "sim h' (as ! (length as - 1)) (pas ! (length pas - 1))"
      by (simp add: list_all2_lengthD list_all2_nthD2)
    with Inr t f g p pt show ?thesis
      by (simp add: predict_h_def predict_def)
  qed
qed

lemma backward_step_h_sim:
  assumes "sim_net h this net" "i < length (weights net)"
    "list_all2 (sim h) zs pzs" "list_all2 (sim h) as pas"
    "i < length pas" "i - 1 < length pzs" "sim_state h st pst"
  shows "\<exists>r h'. backward_step_h zs as i st (this, h) = (r, this, h') \<and> grows h h'
           \<and> rel_sum (=) (sim_state h') r (backward_step net pzs pas i pst)"
proof -
  obtain dw db delta where st: "st = (dw, db, delta)" by (cases st)
  obtain pdw pdb pdelta where pst: "pst = (pdw, pdb, pdelta)" by (cases pst)
  from assms(7) st pst have sdw: "list_all2 (sim h) dw pdw" and sdb: "list_all2 (sim h) db pdb"
    and sd: "sim h delta pdelta" by simp_all
  from assms(1) have ws: "list_all2 (sim h) (o_weights this) (weights net)"
    and act: "o_hiddenActivation this = hiddenActivation net"
    by (simp_all add: sim_net_def)
  from ws assms(2) have sw: "sim h (o_weights this ! i) (weights net ! i)"
    by (simp add: list_all2_nthD2)
  from assms(4,5) have sai: "sim h (as ! i) (pas ! i)"
    by (simp add: list_all2_nthD2)
  from assms(3,6) have szi: "sim h (zs ! (i - 1)) (pzs ! (i - 1))"
    by (simp add: list_all2_nthD2)
  let ?T = "transpose_m (pas ! i)"
  from transpose_h_sim [OF sai] obtain t where
    o1: "transpose_h (as ! i) h = (t, h @ [data ?T])" and s1: "sim (h @ [data ?T]) t ?T"
    by blast
  let ?h1 = "h @ [data ?T]"
  have g1: "grows h ?h1" by (rule grows_one)
  let ?G = "mul pdelta ?T"
  from mul_h_sim [OF sim_grows [OF g1 sd] s1] obtain g where
    o2: "mul_h delta t ?h1 = (g, ?h1 @ [data ?G])" and s2: "sim (?h1 @ [data ?G]) g ?G"
    by blast
  let ?h2 = "?h1 @ [data ?G]"
  have g12: "grows ?h1 ?h2" by (rule grows_one)
  with g1 have g2: "grows h ?h2" by (rule grows_trans)
  from clone_h_sim [OF sim_grows [OF g2 sd]] obtain c where
    o3: "clone_h delta ?h2 = (c, ?h2 @ [data pdelta])"
    and s3: "sim (?h2 @ [data pdelta]) c pdelta" by blast
  let ?h3 = "?h2 @ [data pdelta]"
  have g23: "grows ?h2 ?h3" by (rule grows_one)
  with g2 have g3: "grows h ?h3" by (rule grows_trans)
  have sdw3: "list_all2 (sim ?h3) (g # dw) (?G # pdw)"
    using sim_grows [OF g23 s2] sims_grows [OF g3 sdw] by simp
  have sdb3: "list_all2 (sim ?h3) (c # db) (pdelta # pdb)"
    using s3 sims_grows [OF g3 sdb] by simp
  show ?thesis
  proof (cases "0 < i")
    case False
    have "sim_state ?h3 (g # dw, c # db, delta) (?G # pdw, pdelta # pdb, pdelta)"
      using sdw3 sdb3 sim_grows [OF g3 sd] by simp
    with False st pst o1 o2 o3 g3 show ?thesis
      by (simp add: backward_step_h_def backward_step_def Let_def)
  next
    case True
    show ?thesis
    proof (cases "activations (hiddenActivation net)")
      case None
      with True st pst o1 o2 o3 g3 act show ?thesis
        by (simp add: backward_step_h_def backward_step_def Let_def)
    next
      case (Some f)
      let ?D = "map_m (pzs ! (i - 1)) (\<lambda>x i. dfn f x)"
      from map_h_sim [OF sim_grows [OF g3 szi], of "\<lambda>x i. dfn f x"] obtain dAct where
        o4: "map_h (zs ! (i - 1)) (\<lambda>x i. dfn f x) ?h3 = (dAct, ?h3 @ [data ?D])"
        and s4: "sim (?h3 @ [data ?D]) dAct ?D" by blast
      let ?h4 = "?h3 @ [data ?D]"
      have g34: "grows ?h3 ?h4" by (rule grows_one)
      with g3 have g4: "grows h ?h4" by (rule grows_trans)
      let ?W = "transpose_m (weights net ! i)"
      from transpose_h_sim [OF sim_grows [OF g4 sw]] obtain wt where
        o5: "transpose_h (o_weights this ! i) ?h4 = (wt, ?h4 @ [data ?W])"
        and s5: "sim (?h4 @ [data ?W]) wt ?W" by blast
      let ?h5 = "?h4 @ [data ?W]"
      have g45: "grows ?h4 ?h5" by (rule grows_one)
      with g4 have g5: "grows h ?h5" by (rule grows_trans)
      let ?Q = "mul ?W pdelta"
      from mul_h_sim [OF s5 sim_grows [OF g5 sd]] obtain q where
        o6: "mul_h wt delta ?h5 = (q, ?h5 @ [data ?Q])"
        and s6: "sim (?h5 @ [data ?Q]) q ?Q" by blast
      let ?h6 = "?h5 @ [data ?Q]"
      have g56: "grows ?h5 ?h6" by (rule grows_one)
      with g5 have g6: "grows h ?h6" by (rule grows_trans)
      have g46: "grows ?h4 ?h6" using g45 g56 by (rule grows_trans)
      let ?N = "hadamard ?Q ?D"
      from hadamard_h_sim [OF s6 sim_grows [OF g46 s4]] obtain d' where
        o7: "hadamard_h q dAct ?h6 = (d', ?h6 @ [data ?N])"
        and s7: "sim (?h6 @ [data ?N]) d' ?N" by blast
      let ?h7 = "?h6 @ [data ?N]"
      have g67: "grows ?h6 ?h7" by (rule grows_one)
      with g6 have g7: "grows h ?h7" by (rule grows_trans)
      have g37: "grows ?h3 ?h7"
        using g34 g46 g67 by (blast intro: grows_trans)
      have "sim_state ?h7 (g # dw, c # db, d') (?G # pdw, pdelta # pdb, ?N)"
        using sims_grows [OF g37 sdw3] sims_grows [OF g37 sdb3] s7 by simp
      with True Some st pst o1 o2 o3 o4 o5 o6 o7 g7 act show ?thesis
        by (simp add: backward_step_h_def backward_step_def Let_def)
    qed
  qed
qed

lemma backward_loop_h_sim:
  assumes "sim_net h this net" "list_all2 (sim h) zs pzs" "list_all2 (sim h) as pas"
    "\<forall>i\<in>set xs. i < length (weights net) \<and> i < length pas \<and> i - 1 < length pzs"
    "rel_sum (=) (sim_state h) r0 p0"
  shows "\<exists>r h'. fold (\<lambda>i (st, s). case st of Inl e \<Rightarrow> (Inl e, s)
                                    | Inr t \<Rightarrow> backward_step_h zs as i t s) xs (r0, this, h)
                  = (r, this, h')
           \<and> grows h h'
           \<and> rel_sum (=) (sim_state h') r
                (fold (\<lambda>i st. case st of Inl e \<Rightarrow> Inl e | Inr s \<Rightarrow> backward_step net pzs pas i s)
                      xs p0)"
  using assms
proof (induction xs arbitrary: r0 p0 h)
  case Nil
  then show ?case by simp
next
  case (Cons i xs)
  from Cons.prems(4) have i: "i < length (weights net)" "i < length pas" "i - 1 < length pzs"
    and rest: "\<forall>i\<in>set xs. i < length (weights net) \<and> i < length pas \<and> i - 1 < length pzs"
    by simp_all
  show ?case
  proof (cases r0)
    case (Inl e)
    with Cons.prems(5) have p0: "p0 = Inl e" by (cases p0) simp_all
    from Cons.IH [OF Cons.prems(1,2,3) rest, of "Inl e" "Inl e"] Inl p0 show ?thesis by simp
  next
    case (Inr t)
    with Cons.prems(5) obtain pt where p0: "p0 = Inr pt" and s: "sim_state h t pt"
      by (cases p0) simp_all
    from backward_step_h_sim [OF Cons.prems(1) i(1) Cons.prems(2,3) i(2,3) s] obtain r h1 where
      st: "backward_step_h zs as i t (this, h) = (r, this, h1)" and g: "grows h h1"
      and rel: "rel_sum (=) (sim_state h1) r (backward_step net pzs pas i pt)" by blast
    from Cons.IH [OF sim_net_grows [OF g Cons.prems(1)] sims_grows [OF g Cons.prems(2)]
        sims_grows [OF g Cons.prems(3)] rest rel]
    obtain r' h' where
      "fold (\<lambda>i (st, s). case st of Inl e \<Rightarrow> (Inl e, s)
                                    | Inr t \<Rightarrow> backward_step_h zs as i t s) xs (r, this, h1)
                  = (r', this, h')" "grows h1 h'"
      "rel_sum (=) (sim_state h') r'
                (fold (\<lambda>i st. case st of Inl e \<Rightarrow> Inl e | Inr s \<Rightarrow> backward_step net pzs pas i s)
                      xs (backward_step net pzs pas i pt))"
      by blast
    with st g Inr p0 show ?thesis
      by (auto intro: grows_trans)
  qed
qed

lemma backward_h_sim:
  assumes "sim_net h this net" "sim h input x" "sim h target y"
  shows "\<exists>r h'. backward_h input target (this, h) = (r, this, h') \<and> grows h h'
           \<and> rel_sum (=) (sim_gradients h') r (backward net x y)"
proof -
  from assms(1) have lw: "length (o_weights this) = length (weights net)"
    by (auto simp: sim_net_def dest: list_all2_lengthD)
  let ?L = "length (weights net)"
  from forward_h_sim [OF assms(1,2)] obtain r h0 where
    f: "forward_h input (this, h) = (r, this, h0)" and g0: "grows h h0"
    and rel: "rel_sum (=) (sim_trace h0) r (forward net x)" by blast
  show ?thesis
  proof (cases r)
    case (Inl e)
    with rel have "forward net x = Inl e" by (cases "forward net x") simp_all
    with Inl f g0 show ?thesis by (simp add: backward_h_def backward_def)
  next
    case (Inr t)
    obtain zs as where t: "t = (zs, as)" by (cases t)
    from Inr rel obtain pt where p: "forward net x = Inr pt" and s: "sim_trace h0 t pt"
      by (cases "forward net x") simp_all
    obtain pzs pas where pt: "pt = (pzs, pas)" by (cases pt)
    from s t pt have szs: "list_all2 (sim h0) zs pzs" and sas: "list_all2 (sim h0) as pas"
      by simp_all
    from forward_lengths [of net x pzs pas] p pt have
      lz: "length pzs = ?L" and la: "length pas = Suc ?L" by simp_all
    from sas la have sL: "sim h0 (as ! ?L) (pas ! ?L)"
      by (simp add: list_all2_nthD2)
    let ?D = "sub (pas ! ?L) y"
    from sub_h_sim [OF sL sim_grows [OF g0 assms(3)]] obtain delta where
      o1: "sub_h (as ! ?L) target h0 = (delta, h0 @ [data ?D])"
      and s1: "sim (h0 @ [data ?D]) delta ?D" by blast
    let ?h1 = "h0 @ [data ?D]"
    have g01: "grows h0 ?h1" by (rule grows_one)
    with g0 have g1: "grows h ?h1" by (rule grows_trans)
    have r0: "rel_sum (=) (sim_state ?h1) (Inr ([], [], delta)) (Inr ([], [], ?D))"
      using s1 by simp
    have ix: "\<forall>i\<in>set (rev [0..<?L]). i < ?L \<and> i < length pas \<and> i - 1 < length pzs"
      using lz la by auto
    from backward_loop_h_sim [OF sim_net_grows [OF g1 assms(1)] sims_grows [OF g01 szs]
        sims_grows [OF g01 sas] ix r0]
    obtain r' h' where
      lp: "fold (\<lambda>i (st, s). case st of Inl e \<Rightarrow> (Inl e, s)
                                    | Inr t \<Rightarrow> backward_step_h zs as i t s)
             (rev [0..<?L]) (Inr ([], [], delta), this, ?h1) = (r', this, h')"
      and g': "grows ?h1 h'"
      and rel': "rel_sum (=) (sim_state h') r'
                (fold (\<lambda>i st. case st of Inl e \<Rightarrow> Inl e | Inr s \<Rightarrow> backward_step net pzs pas i s)
                      (rev [0..<?L]) (Inr ([], [], ?D)))"
      by blast
    from g1 g' have gh: "grows h h'" by (rule grows_trans)
    from g01 g' have g0h: "grows h0 h'" by (rule grows_trans)
    let ?pf = "fold (\<lambda>i st. case st of Inl e \<Rightarrow> Inl e | Inr s \<Rightarrow> backward_step net pzs pas i s)
                      (rev [0..<?L]) (Inr ([], [], ?D))"
    show ?thesis
    proof (cases r')
      case (Inl e)
      with rel' have "?pf = Inl e" by (cases ?pf) simp_all
      with Inl Inr t f p pt o1 lp gh lw show ?thesis
        by (simp add: backward_h_def backward_def Let_def)
    next
      case r'Inr: (Inr u)
      obtain dw db d where u: "u = (dw, db, d)" by (cases u)
      from r'Inr rel' obtain pu where pf: "?pf = Inr pu" and su: "sim_state h' u pu"
        by (cases ?pf) simp_all
      obtain pdw pdb pd where pu: "pu = (pdw, pdb, pd)" by (cases pu)
      have ce: "crossEntropyLoss_h (as ! ?L) target h' = crossEntropyLoss (pas ! ?L) y"
        using crossEntropyLoss_h_eq [of h' "as ! ?L" target]
          sim_grows [OF g0h sL] sim_grows [OF gh assms(3)]
        by (simp add: sim_def)
      from su u pu have "sim_gradients h' (dw, db, crossEntropyLoss (pas ! ?L) y)
            (pdw, pdb, crossEntropyLoss (pas ! ?L) y)" by simp
      with r'Inr u pf pu Inr t f p pt o1 lp gh lw ce show ?thesis
        by (simp add: backward_h_def backward_def Let_def)
    qed
  qed
qed

end
